theory Spec2Isabelle
  imports Main "HOL-Library.Word" "HOL-Library.Signed_Division" "HOL-Library.Monad_Syntax"
begin

section \<open>Windowed statistics counters (torch/csrc/monitor/counters.h)\<close>

text \<open>
  The development embeds the class template \<open>Stat<T>\<close> and its two subclasses
  \<open>IntervalStat<T>\<close> and \<open>FixedCountStat<T>\<close> at the instance \<open>T = int64_t\<close>.
  Machine integers are 64-bit words: addition wraps around (two's complement, what the
  compiled code does; ISO C++ leaves signed overflow undefined), comparisons of
  \<open>int64_t\<close> values are the signed ones, and the integer division traps on a zero
  divisor and on \<open>INT64_MIN / -1\<close>, which the model reports as \<open>None\<close>.
  The instance \<open>T = double\<close> is outside the embedding.

  The mutex only serialises the member functions; every member function is modelled as
  one atomic step on the object's state.
\<close>

type_synonym int64_t = "64 word"
type_synonym uint64_t = "64 word"

text \<open>A reading of \<open>std::chrono::system_clock::now()\<close>.\<close>
type_synonym time_point = int

subsection \<open>Aggregation kinds and the bitset\<close>

text \<open>
  The enumerators of \<open>enum Aggregation\<close>. The names carry a suffix because
  \<open>SUM\<close>, \<open>MAX\<close> and \<open>MIN\<close> are reserved syntax of HOL.
\<close>
datatype Aggregation =
  NONE_agg | VALUE_agg | MEAN_agg | COUNT_agg | SUM_agg | MAX_agg | MIN_agg

text \<open>The integer value of each enumerator, as the source assigns it.\<close>
fun enum_value :: "Aggregation \<Rightarrow> nat" where
  "enum_value NONE_agg = 0"
| "enum_value VALUE_agg = 1"
| "enum_value MEAN_agg = 2"
| "enum_value COUNT_agg = 3"
| "enum_value SUM_agg = 4"
| "enum_value MAX_agg = 5"
| "enum_value MIN_agg = 6"

text \<open>\<open>std::bitset<NUM_AGGREGATIONS>\<close> with \<open>NUM_AGGREGATIONS = 7\<close>.\<close>
type_synonym bitset7 = "7 word"

text \<open>\<open>a.test(b)\<close>; every enumerator is below 7, so the call never throws.\<close>
definition test :: "bitset7 \<Rightarrow> Aggregation \<Rightarrow> bool" where
  "test a b = bit a (enum_value b)"

text \<open>\<open>merge\<close>: starts from the empty bitset and sets the bit of each list element.\<close>
definition merge :: "Aggregation list \<Rightarrow> bitset7" where
  "merge list = fold (\<lambda>b a. set_bit (enum_value b) a) list 0"

subsection \<open>Window values, events and the call log\<close>

text \<open>
  \<open>struct Values\<close>. The field names carry the suffix \<open>_f\<close> because \<open>sum\<close>,
  \<open>min\<close> and \<open>max\<close> are constants of HOL.
\<close>
record Values =
  value_f :: int64_t
  sum_f :: int64_t
  min_f :: int64_t
  max_f :: int64_t
  count_f :: int64_t

text \<open>\<open>Values()\<close>: every member is initialised to 0.\<close>
definition Values_init :: Values where
  "Values_init = \<lparr>value_f = 0, sum_f = 0, min_f = 0, max_f = 0, count_f = 0\<rparr>"

text \<open>
  The members of \<open>Event\<close> (declared in events.h) that \<open>logLocked\<close> assigns.
  The metadata values are the \<open>int64_t\<close> alternative of the event's value type.
\<close>
record Event =
  type_f :: string
  message_f :: string
  timestamp_f :: time_point
  metadata_f :: "string \<rightharpoonup> int64_t"

text \<open>
  The log of calls made so far, oldest first: the calls that leave the class
  (\<open>detail::registerStat\<close>, \<open>detail::unregisterStat\<close>, \<open>logEvent\<close>) and, as
  bookkeeping that no model function reads, each entry into \<open>logLocked\<close>, that is,
  each window close.
\<close>
datatype call = RegisterStat | UnregisterStat | LogEvent Event | LogLocked

definition logEvent :: "Event \<Rightarrow> call list \<Rightarrow> call list" where
  "logEvent e tr = tr @ [LogEvent e]"

definition registerStat :: "call list \<Rightarrow> call list" where
  "registerStat tr = tr @ [RegisterStat]"

definition unregisterStat :: "call list \<Rightarrow> call list" where
  "unregisterStat tr = tr @ [UnregisterStat]"

text \<open>
  Modelled from the spec: \<open>aggregationName\<close> is only declared in counters.h; its body is
  not among the sources. The spec calls it a pure function from kinds to display
  names and shows the names \<open>sum\<close>, \<open>count\<close> and \<open>mean\<close> in its metadata keys; the
  other kinds are named by the same lower-case pattern.
\<close>
fun aggregationName :: "Aggregation \<Rightarrow> string" where
  "aggregationName NONE_agg = ''none''"
| "aggregationName VALUE_agg = ''value''"
| "aggregationName MEAN_agg = ''mean''"
| "aggregationName COUNT_agg = ''count''"
| "aggregationName SUM_agg = ''sum''"
| "aggregationName MAX_agg = ''max''"
| "aggregationName MIN_agg = ''min''"

subsection \<open>The classes\<close>

text \<open>
  The data members. A name of HOL cannot end in an underscore, so the member
  \<open>name_\<close> of the source is \<open>name_m\<close> here, and so on.
\<close>
record Stat =
  name_m :: string
  aggregations_m :: bitset7
  current_m :: Values
  prev_m :: Values

text \<open>The window size of an \<open>IntervalStat\<close> is a count of milliseconds.\<close>
record IntervalStat = Stat +
  windowId_m :: uint64_t
  windowSize_m :: int64_t

record FixedCountStat = Stat +
  windowSize_m :: int64_t

text \<open>An object together with the call log.\<close>
type_synonym 'a state = "'a Stat_scheme \<times> call list"

subsection \<open>Arithmetic of \<open>int64_t\<close>\<close>

text \<open>
  \<open>a / b\<close> on \<open>int64_t\<close>: the quotient truncated towards zero; \<open>None\<close> where the
  machine traps.
\<close>
definition div_T :: "int64_t \<Rightarrow> int64_t \<Rightarrow> int64_t option" where
  "div_T a b =
     (if b = 0 \<or> (a = - (2 ^ 63) \<and> b = - 1) then None
      else Some (word_of_int (sint a sdiv sint b)))"

subsection \<open>\<open>Stat<T>\<close>\<close>

text \<open>\<open>out.emplace(k, v)\<close>: inserts unless the key is present.\<close>
definition emplace :: "'k \<Rightarrow> 'v \<Rightarrow> ('k \<rightharpoonup> 'v) \<Rightarrow> ('k \<rightharpoonup> 'v)" where
  "emplace k v out = (case out k of None \<Rightarrow> out(k \<mapsto> v) | Some _ \<Rightarrow> out)"

text \<open>\<open>getLocked\<close>; \<open>reserve\<close> is a capacity hint and leaves the map as it is.\<close>
definition getLocked :: "'a Stat_scheme \<Rightarrow> (Aggregation \<rightharpoonup> int64_t) option" where
  "getLocked s = do {
     let out = Map.empty;
     let out = (if test (aggregations_m s) VALUE_agg
                then emplace VALUE_agg (value_f (prev_m s)) out else out);
     out \<leftarrow> (if test (aggregations_m s) MEAN_agg
             then (if count_f (prev_m s) = 0
                   then Some (emplace MEAN_agg 0 out)
                   else do {
                     q \<leftarrow> div_T (sum_f (prev_m s)) (count_f (prev_m s));
                     Some (emplace MEAN_agg q out)
                   })
             else Some out);
     let out = (if test (aggregations_m s) COUNT_agg
                then emplace COUNT_agg (count_f (prev_m s)) out else out);
     let out = (if test (aggregations_m s) SUM_agg
                then emplace SUM_agg (sum_f (prev_m s)) out else out);
     let out = (if test (aggregations_m s) MAX_agg
                then emplace MAX_agg (max_f (prev_m s)) out else out);
     let out = (if test (aggregations_m s) MIN_agg
                then emplace MIN_agg (min_f (prev_m s)) out else out);
     Some out
   }"

text \<open>
  The key of one metadata entry: the name, a dot, the display name of the kind.
\<close>
definition metadata_key :: "string \<Rightarrow> Aggregation \<Rightarrow> string" where
  "metadata_key name agg = name @ ''.'' @ aggregationName agg"

text \<open>
  The loop of \<open>logLocked\<close> over the entries of \<open>stats\<close>. An \<open>unordered_map\<close> is
  visited in an unspecified order; the model visits the keys in the order of the
  enumeration.
\<close>
definition all_aggregations :: "Aggregation list" where
  "all_aggregations =
     [NONE_agg, VALUE_agg, MEAN_agg, COUNT_agg, SUM_agg, MAX_agg, MIN_agg]"

definition build_metadata ::
  "string \<Rightarrow> (Aggregation \<rightharpoonup> int64_t) \<Rightarrow> (string \<rightharpoonup> int64_t)" where
  "build_metadata name stats =
     fold (\<lambda>k md. case stats k of None \<Rightarrow> md
                  | Some v \<Rightarrow> md(metadata_key name k \<mapsto> v))
          all_aggregations Map.empty"

text \<open>
  \<open>logLocked\<close>. The argument \<open>now\<close> is what \<open>system_clock::now()\<close> returns
  during the call.
\<close>
fun logLocked :: "time_point \<Rightarrow> 'a state \<Rightarrow> 'a state option" where
  "logLocked now (s, tr) =
     (let tr = tr @ [LogLocked];
          s = s\<lparr>prev_m := current_m s\<rparr>;
          s = s\<lparr>current_m := Values_init\<rparr>
      in if count_f (prev_m s) = 0 then Some (s, tr)
         else do {
           stats \<leftarrow> getLocked s;
           let e = \<lparr>type_f = ''torch.monitor.Stat'', message_f = name_m s,
                    timestamp_f = now,
                    metadata_f = build_metadata (name_m s) stats\<rparr>;
           Some (s, logEvent e tr)
         })"

text \<open>
  The statements of \<open>add\<close> between its two calls of \<open>maybeLogLocked\<close>, on the
  current window.
\<close>
definition accumulate :: "bitset7 \<Rightarrow> int64_t \<Rightarrow> Values \<Rightarrow> Values" where
  "accumulate aggs v c =
     (let c = (if test aggs VALUE_agg then c\<lparr>value_f := v\<rparr> else c);
          c = (if test aggs MEAN_agg \<or> test aggs SUM_agg
               then c\<lparr>sum_f := sum_f c + v\<rparr> else c);
          c = (if test aggs MAX_agg
               then (if max_f c <s v \<or> count_f c = 0 then c\<lparr>max_f := v\<rparr> else c)
               else c);
          c = (if test aggs MIN_agg
               then (if v <s min_f c \<or> count_f c = 0 then c\<lparr>min_f := v\<rparr> else c)
               else c)
      in c\<lparr>count_f := count_f c + 1\<rparr>)"

text \<open>
  \<open>add\<close>. The pure virtual \<open>maybeLogLocked\<close> is a parameter, once for each of the
  two calls, since each call reads the clocks anew.
\<close>
definition add ::
  "('a state \<Rightarrow> 'a state option) \<Rightarrow> ('a state \<Rightarrow> 'a state option) \<Rightarrow>
   int64_t \<Rightarrow> 'a state \<Rightarrow> 'a state option" where
  "add maybeLogLocked1 maybeLogLocked2 v st = do {
     (s, tr) \<leftarrow> maybeLogLocked1 st;
     let s = s\<lparr>current_m := accumulate (aggregations_m s) v (current_m s)\<rparr>;
     maybeLogLocked2 (s, tr)
   }"

text \<open>\<open>count\<close> and \<open>get\<close> return their result and the state they leave.\<close>
definition count :: "'a state \<Rightarrow> int64_t \<times> 'a state" where
  "count st = (count_f (current_m (fst st)), st)"

definition get :: "'a state \<Rightarrow> ((Aggregation \<rightharpoonup> int64_t) \<times> 'a state) option" where
  "get st = do { out \<leftarrow> getLocked (fst st); Some (out, st) }"

text \<open>
  The destructor: \<open>logLocked\<close>, then \<open>detail::unregisterStat\<close>. The object is gone
  afterwards; the call log remains.
\<close>
definition Stat_dtor :: "time_point \<Rightarrow> 'a state \<Rightarrow> call list option" where
  "Stat_dtor now st = do {
     (s, tr) \<leftarrow> logLocked now st;
     Some (unregisterStat tr)
   }"

subsection \<open>\<open>IntervalStat<T>\<close>\<close>

text \<open>
  The ticks of \<open>steady_clock\<close> are nanoseconds (as in libstdc++ and libc++), so the
  common type of the division in \<open>currentWindowId\<close> is nanoseconds and the window
  size is converted by this factor.
\<close>
definition ticks_per_ms :: int64_t where
  "ticks_per_ms = 1000000"

text \<open>
  \<open>currentWindowId\<close>; \<open>now\<close> is the tick count of
  \<open>steady_clock::now().time_since_epoch()\<close>. The quotient converts to
  \<open>uint64_t\<close> with the same bits.
\<close>
definition currentWindowId :: "int64_t \<Rightarrow> 'a IntervalStat_scheme \<Rightarrow> uint64_t option" where
  "currentWindowId now s = div_T now (IntervalStat.windowSize_m s * ticks_per_ms)"

definition IntervalStat_ctor ::
  "string \<Rightarrow> Aggregation list \<Rightarrow> int64_t \<Rightarrow> call list \<Rightarrow> IntervalStat \<times> call list" where
  "IntervalStat_ctor name aggregations windowSize tr =
     (\<lparr>name_m = name, aggregations_m = merge aggregations,
       current_m = Values_init, prev_m = Values_init,
       windowId_m = 0, windowSize_m = windowSize\<rparr>,
      registerStat tr)"

text \<open>
  \<open>IntervalStat::maybeLogLocked\<close>; \<open>steady\<close> is the reading of the steady clock and
  \<open>now\<close> the reading of the system clock during the call.
\<close>
fun IntervalStat_maybeLogLocked ::
  "int64_t \<Rightarrow> time_point \<Rightarrow> 'a IntervalStat_scheme \<times> call list \<Rightarrow>
   ('a IntervalStat_scheme \<times> call list) option" where
  "IntervalStat_maybeLogLocked steady now (s, tr) = do {
     windowId \<leftarrow> currentWindowId steady s;
     if windowId_m s \<noteq> windowId
     then do {
       (s, tr) \<leftarrow> logLocked now (s, tr);
       Some (s\<lparr>windowId_m := windowId\<rparr>, tr)
     }
     else Some (s, tr)
   }"

text \<open>
  \<open>add\<close> on an \<open>IntervalStat\<close>; the argument holds the clock readings of the first
  and of the second call of \<open>maybeLogLocked\<close>.
\<close>
definition IntervalStat_add ::
  "(int64_t \<times> time_point) \<times> (int64_t \<times> time_point) \<Rightarrow> int64_t \<Rightarrow>
   'a IntervalStat_scheme \<times> call list \<Rightarrow> ('a IntervalStat_scheme \<times> call list) option" where
  "IntervalStat_add clk v =
     add (IntervalStat_maybeLogLocked (fst (fst clk)) (snd (fst clk)))
         (IntervalStat_maybeLogLocked (fst (snd clk)) (snd (snd clk))) v"

subsection \<open>\<open>FixedCountStat<T>\<close>\<close>

definition FixedCountStat_ctor ::
  "string \<Rightarrow> Aggregation list \<Rightarrow> int64_t \<Rightarrow> call list \<Rightarrow> FixedCountStat \<times> call list" where
  "FixedCountStat_ctor name aggregations windowSize tr =
     (\<lparr>name_m = name, aggregations_m = merge aggregations,
       current_m = Values_init, prev_m = Values_init,
       windowSize_m = windowSize\<rparr>,
      registerStat tr)"

fun FixedCountStat_maybeLogLocked ::
  "time_point \<Rightarrow> 'a FixedCountStat_scheme \<times> call list \<Rightarrow>
   ('a FixedCountStat_scheme \<times> call list) option" where
  "FixedCountStat_maybeLogLocked now (s, tr) =
     (if windowSize_m s \<le>s count_f (current_m s) then logLocked now (s, tr)
      else Some (s, tr))"

text \<open>
  \<open>add\<close> on a \<open>FixedCountStat\<close>; the argument holds the system clock readings of
  the first and of the second call of \<open>maybeLogLocked\<close>.
\<close>
definition FixedCountStat_add ::
  "time_point \<times> time_point \<Rightarrow> int64_t \<Rightarrow>
   'a FixedCountStat_scheme \<times> call list \<Rightarrow> ('a FixedCountStat_scheme \<times> call list) option" where
  "FixedCountStat_add clk v =
     add (FixedCountStat_maybeLogLocked (fst clk)) (FixedCountStat_maybeLogLocked (snd clk)) v"

subsection \<open>Sequences of calls\<close>

text \<open>
  A client that calls a member function once for each element of a list, in order. A call
  that traps ends the run.
\<close>
fun call_seq :: "('x \<Rightarrow> 's \<Rightarrow> 's option) \<Rightarrow> 'x list \<Rightarrow> 's \<Rightarrow> 's option" where
  "call_seq f [] st = Some st"
| "call_seq f (x # xs) st = Option.bind (f x st) (call_seq f xs)"

text \<open>Each element holds the clock readings of one \<open>add\<close> and the value added.\<close>
definition FixedCountStat_adds ::
  "((time_point \<times> time_point) \<times> int64_t) list \<Rightarrow>
   'a FixedCountStat_scheme \<times> call list \<Rightarrow> ('a FixedCountStat_scheme \<times> call list) option" where
  "FixedCountStat_adds = call_seq (\<lambda>x. FixedCountStat_add (fst x) (snd x))"

definition IntervalStat_adds ::
  "(((int64_t \<times> time_point) \<times> (int64_t \<times> time_point)) \<times> int64_t) list \<Rightarrow>
   'a IntervalStat_scheme \<times> call list \<Rightarrow> ('a IntervalStat_scheme \<times> call list) option" where
  "IntervalStat_adds = call_seq (\<lambda>x. IntervalStat_add (fst x) (snd x))"

subsection \<open>Example objects\<close>

text \<open>
  An \<open>IntervalStat\<close> with a window of one minute that selects SUM, in bucket 1, with
  two observations in its current window.
\<close>
definition interval_example :: IntervalStat where
  "interval_example =
     \<lparr>name_m = ''x'', aggregations_m = merge [SUM_agg],
      current_m = \<lparr>value_f = 0, sum_f = 12, min_f = 0, max_f = 0, count_f = 2\<rparr>,
      prev_m = Values_init, windowId_m = 1, windowSize_m = 60000\<rparr>"

text \<open>
  The \<open>FixedCountStat\<close> named latency with threshold 3 after its first window, which
  held 10, 20 and 30, has closed.
\<close>
definition latency_closed :: FixedCountStat where
  "latency_closed =
     \<lparr>name_m = ''latency'', aggregations_m = merge [SUM_agg, COUNT_agg, MEAN_agg],
      current_m = Values_init,
      prev_m = \<lparr>value_f = 0, sum_f = 60, min_f = 0, max_f = 0, count_f = 3\<rparr>,
      windowSize_m = 3\<rparr>"

section \<open>Auxiliary facts\<close>

subsection \<open>Signed 64-bit arithmetic\<close>

lemma sint_range64: "- (2 ^ 63) \<le> sint (c :: 64 word) \<and> sint c < 2 ^ 63"
  using sint_ge [of c] sint_lt [of c] by simp

lemma sint_succ: "sint (c :: 64 word) < 2 ^ 63 - 1 \<Longrightarrow> sint (c + 1) = sint c + 1"
  using sint_range64 [of c]
  by (simp add: sint_word_ariths signed_take_bit_int_eq_self)

lemma sint_of_nat_small: "n < 2 ^ 63 \<Longrightarrow> sint (of_nat n :: 64 word) = int n"
  by (simp add: signed_of_nat signed_take_bit_int_eq_self)

lemma div_le_self_int: "0 \<le> (a :: int) \<Longrightarrow> 0 < b \<Longrightarrow> a div b \<le> a"
  by (metis div_by_1 int_one_le_iff_zero_less zdiv_mono2 zero_less_one)

lemma sdiv_between:
  assumes "0 < (y :: int)"
  shows "min x 0 \<le> x sdiv y \<and> x sdiv y \<le> max x 0"
proof (cases "0 \<le> x")
  case True
  then have "x sdiv y = x div y"
    using assms by (simp add: signed_divide_int_def sgn_if)
  moreover have "0 \<le> x div y"
    using True assms by (simp add: pos_imp_zdiv_nonneg_iff)
  moreover have "x div y \<le> x"
    using True assms by (rule div_le_self_int)
  ultimately show ?thesis using True by simp
next
  case False
  then have e: "x sdiv y = - ((- x) div y)"
    using assms by (simp add: signed_divide_int_def sgn_if)
  have "0 \<le> (- x) div y"
    using False assms by (simp add: pos_imp_zdiv_nonneg_iff)
  moreover have "(- x) div y \<le> - x"
    using False assms by (intro div_le_self_int) simp_all
  ultimately show ?thesis using False e by simp
qed

lemma sint_word_of_sdiv:
  assumes "0 < sint (b :: 64 word)"
  shows "sint (word_of_int (sint (a :: 64 word) sdiv sint b) :: 64 word) = sint a sdiv sint b"
proof -
  have "min (sint a) 0 \<le> sint a sdiv sint b \<and> sint a sdiv sint b \<le> max (sint a) 0"
    using assms by (rule sdiv_between)
  then have "- (2 ^ 63) \<le> sint a sdiv sint b \<and> sint a sdiv sint b < 2 ^ 63"
    using sint_range64 [of a] by (auto simp: min_def max_def split: if_splits)
  then show ?thesis
    by (simp add: signed_take_bit_int_eq_self Word.signed_of_int)
qed

subsection \<open>The bitset\<close>

lemma enum_value_inj: "enum_value a = enum_value b \<longleftrightarrow> a = b"
  by (cases a; cases b) simp_all

lemma enum_value_less: "enum_value k < 7"
  by (cases k) simp_all

lemma bit_fold_set_bit:
  "bit (fold (\<lambda>b a. set_bit (enum_value b) a) xs (a0 :: 7 word)) n \<longleftrightarrow>
   bit a0 n \<or> (\<exists>k \<in> set xs. enum_value k = n)"
proof (induction xs arbitrary: a0)
  case Nil
  then show ?case by simp
next
  case (Cons x xs)
  show ?case
    using enum_value_less [of x]
    by (auto simp: Cons.IH bit_set_bit_iff)
qed

lemma test_merge: "test (merge xs) k \<longleftrightarrow> k \<in> set xs"
  by (auto simp: test_def merge_def bit_fold_set_bit enum_value_inj)

lemma merge_set_cong: "set xs = set ys \<Longrightarrow> merge xs = merge ys"
  by (rule bit_eqI) (simp add: merge_def bit_fold_set_bit)

subsection \<open>\<open>getLocked\<close> and \<open>logLocked\<close>\<close>

lemma emplace_apply:
  "emplace k v out k' = (if k' = k \<and> out k = None then Some v else out k')"
  by (simp add: emplace_def split: option.splits)

lemma getLocked_lookup:
  assumes "getLocked s = Some m"
  shows "m k =
    (if test (aggregations_m s) k then
      (case k of NONE_agg \<Rightarrow> None
       | VALUE_agg \<Rightarrow> Some (value_f (prev_m s))
       | MEAN_agg \<Rightarrow> (if count_f (prev_m s) = 0 then Some 0
                      else div_T (sum_f (prev_m s)) (count_f (prev_m s)))
       | COUNT_agg \<Rightarrow> Some (count_f (prev_m s))
       | SUM_agg \<Rightarrow> Some (sum_f (prev_m s))
       | MAX_agg \<Rightarrow> Some (max_f (prev_m s))
       | MIN_agg \<Rightarrow> Some (min_f (prev_m s)))
     else None)"
proof -
  let ?out0 = "if test (aggregations_m s) VALUE_agg
               then emplace VALUE_agg (value_f (prev_m s)) Map.empty else Map.empty"
  from assms obtain out1 where
    o1: "(if test (aggregations_m s) MEAN_agg
          then (if count_f (prev_m s) = 0
                then Some (emplace MEAN_agg 0 ?out0)
                else Option.bind (div_T (sum_f (prev_m s)) (count_f (prev_m s)))
                       (\<lambda>q. Some (emplace MEAN_agg q ?out0)))
          else Some ?out0) = Some out1"
    and m: "m =
      (let out = (if test (aggregations_m s) COUNT_agg
                  then emplace COUNT_agg (count_f (prev_m s)) out1 else out1);
           out = (if test (aggregations_m s) SUM_agg
                  then emplace SUM_agg (sum_f (prev_m s)) out else out);
           out = (if test (aggregations_m s) MAX_agg
                  then emplace MAX_agg (max_f (prev_m s)) out else out);
           out = (if test (aggregations_m s) MIN_agg
                  then emplace MIN_agg (min_f (prev_m s)) out else out)
       in out)"
    unfolding getLocked_def Let_def by (auto simp: bind_eq_Some_conv)
  have o1k: "out1 k =
    (if test (aggregations_m s) k then
      (case k of VALUE_agg \<Rightarrow> Some (value_f (prev_m s))
       | MEAN_agg \<Rightarrow> (if count_f (prev_m s) = 0 then Some 0
                      else div_T (sum_f (prev_m s)) (count_f (prev_m s)))
       | _ \<Rightarrow> None)
     else None)"
    using o1 by (cases k) (auto simp: emplace_apply bind_eq_Some_conv split: if_splits)
  show ?thesis
    unfolding m Let_def using o1k
    by (cases k) (simp_all add: emplace_apply)
qed

lemma getLocked_total:
  assumes "count_f (prev_m s) \<noteq> - 1"
  shows "\<exists>m. getLocked s = Some m"
  using assms unfolding getLocked_def Let_def div_T_def
  by (simp split: if_splits Option.bind_splits)

lemma getLocked_Values_init:
  assumes "prev_m s = Values_init"
  shows "getLocked s =
    Some (\<lambda>k. if test (aggregations_m s) k \<and> k \<noteq> NONE_agg then Some 0 else None)"
proof -
  have "count_f (prev_m s) \<noteq> - 1"
    using assms by (simp add: Values_init_def)
  then obtain m where m: "getLocked s = Some m"
    using getLocked_total by blast
  have "m k = (if test (aggregations_m s) k \<and> k \<noteq> NONE_agg then Some 0 else None)" for k
    using getLocked_lookup [OF m, of k] assms
    by (cases k) (simp_all add: Values_init_def)
  then show ?thesis using m by auto
qed

lemma logLocked_empty:
  "count_f (current_m s) = 0 \<Longrightarrow>
   logLocked now (s, tr) =
     Some (s\<lparr>prev_m := current_m s, current_m := Values_init\<rparr>, tr @ [LogLocked])"
  by (simp add: Let_def)

lemma logLocked_nonempty:
  assumes "count_f (current_m s) \<noteq> 0" "count_f (current_m s) \<noteq> - 1"
  shows "\<exists>stats.
    getLocked (s\<lparr>prev_m := current_m s, current_m := Values_init\<rparr>) = Some stats \<and>
    logLocked now (s, tr) =
      Some (s\<lparr>prev_m := current_m s, current_m := Values_init\<rparr>,
            tr @ [LogLocked,
                  LogEvent \<lparr>type_f = ''torch.monitor.Stat'', message_f = name_m s,
                            timestamp_f = now,
                            metadata_f = build_metadata (name_m s) stats\<rparr>])"
proof -
  obtain stats where
    "getLocked (s\<lparr>prev_m := current_m s, current_m := Values_init\<rparr>) = Some stats"
    using getLocked_total [of "s\<lparr>prev_m := current_m s, current_m := Values_init\<rparr>"] assms
    by auto
  then show ?thesis using assms by (simp add: Let_def logEvent_def)
qed

lemma logLocked_shape:
  assumes "logLocked now (s, tr) = Some (s', tr')"
  shows "s' = s\<lparr>prev_m := current_m s, current_m := Values_init\<rparr> \<and>
         (\<exists>evs. tr' = tr @ LogLocked # evs)"
  using assms
  by (auto simp: Let_def logEvent_def bind_eq_Some_conv split: if_splits)

lemma count_accumulate: "count_f (accumulate aggs v c) = count_f c + 1"
  by (simp add: accumulate_def Let_def)

text \<open>From here on the functions that close windows are unfolded only on request.\<close>
declare logLocked.simps [simp del]
declare IntervalStat_maybeLogLocked.simps [simp del]
declare FixedCountStat_maybeLogLocked.simps [simp del]

subsection \<open>Runs of \<open>add\<close> on a \<open>FixedCountStat\<close>\<close>

lemma call_seq_append:
  "call_seq f (xs @ ys) st = Option.bind (call_seq f xs st) (call_seq f ys)"
  by (induction xs arbitrary: st) (simp_all split: Option.bind_split)

lemma FixedCountStat_add_open:
  assumes "0 \<le> sint (count_f (current_m s))"
    and "sint (count_f (current_m s)) + 1 < sint (windowSize_m s)"
  shows "FixedCountStat_add clk v (s, tr) =
         Some (s\<lparr>current_m := accumulate (aggregations_m s) v (current_m s)\<rparr>, tr)"
proof -
  have "sint (count_f (current_m s)) < 2 ^ 63 - 1"
    using assms sint_range64 [of "windowSize_m s"] by simp
  then have "sint (count_f (current_m s) + 1) = sint (count_f (current_m s)) + 1"
    by (rule sint_succ)
  then show ?thesis
    using assms
    by (simp add: FixedCountStat_add_def add_def FixedCountStat_maybeLogLocked.simps
          word_sle_eq count_accumulate)
qed

lemma FixedCountStat_add_close:
  assumes "0 \<le> sint (count_f (current_m s))"
    and "sint (count_f (current_m s)) + 1 = sint (windowSize_m s)"
  shows "FixedCountStat_add clk v (s, tr) =
         logLocked (snd clk) (s\<lparr>current_m := accumulate (aggregations_m s) v (current_m s)\<rparr>, tr)"
proof -
  have "sint (count_f (current_m s)) < 2 ^ 63 - 1"
    using assms sint_range64 [of "windowSize_m s"] by simp
  then have "sint (count_f (current_m s) + 1) = sint (count_f (current_m s)) + 1"
    by (rule sint_succ)
  then show ?thesis
    using assms
    by (simp add: FixedCountStat_add_def add_def FixedCountStat_maybeLogLocked.simps
          word_sle_eq count_accumulate)
qed

lemma FixedCountStat_adds_open:
  assumes "0 \<le> sint (count_f (current_m s))"
    and "sint (count_f (current_m s)) + int (length xs) < sint (windowSize_m s)"
  shows "\<exists>s'. FixedCountStat_adds xs (s, tr) = Some (s', tr) \<and>
          sint (count_f (current_m s')) = sint (count_f (current_m s)) + int (length xs) \<and>
          windowSize_m s' = windowSize_m s \<and> prev_m s' = prev_m s \<and>
          aggregations_m s' = aggregations_m s \<and> name_m s' = name_m s"
  using assms
proof (induction xs arbitrary: s)
  case Nil
  then show ?case by (simp add: FixedCountStat_adds_def)
next
  case (Cons x xs)
  let ?s1 = "s\<lparr>current_m := accumulate (aggregations_m s) (snd x) (current_m s)\<rparr>"
  have lt: "sint (count_f (current_m s)) + 1 < sint (windowSize_m s)"
    using Cons.prems by simp
  have step: "FixedCountStat_add (fst x) (snd x) (s, tr) = Some (?s1, tr)"
    using Cons.prems(1) lt by (rule FixedCountStat_add_open)
  have "sint (count_f (current_m s)) < 2 ^ 63 - 1"
    using lt sint_range64 [of "windowSize_m s"] by simp
  then have c1: "sint (count_f (current_m ?s1)) = sint (count_f (current_m s)) + 1"
    by (simp add: count_accumulate sint_succ)
  have "\<exists>s'. FixedCountStat_adds xs (?s1, tr) = Some (s', tr) \<and>
          sint (count_f (current_m s')) = sint (count_f (current_m ?s1)) + int (length xs) \<and>
          windowSize_m s' = windowSize_m ?s1 \<and> prev_m s' = prev_m ?s1 \<and>
          aggregations_m s' = aggregations_m ?s1 \<and> name_m s' = name_m ?s1"
    using Cons.prems c1 by (intro Cons.IH) simp_all
  then obtain s' where s': "FixedCountStat_adds xs (?s1, tr) = Some (s', tr)"
      "sint (count_f (current_m s')) = sint (count_f (current_m ?s1)) + int (length xs)"
      "windowSize_m s' = windowSize_m s" "prev_m s' = prev_m s"
      "aggregations_m s' = aggregations_m s" "name_m s' = name_m s"
    by auto
  have "FixedCountStat_adds (x # xs) (s, tr) = Some (s', tr)"
    using step s'(1) by (simp add: FixedCountStat_adds_def)
  moreover have "sint (count_f (current_m s')) =
      sint (count_f (current_m s)) + int (length (x # xs))"
    using s'(2) c1 by simp
  ultimately show ?case using s'(3-6) by blast
qed

subsection \<open>The first observation of a window\<close>

lemma accumulate_first:
  assumes "test aggs MAX_agg" "test aggs MIN_agg" "count_f c = 0"
  shows "min_f (accumulate aggs v c) = v \<and> max_f (accumulate aggs v c) = v \<and>
         count_f (accumulate aggs v c) = 1"
  using assms by (simp add: accumulate_def Let_def)

lemma logLocked_events:
  assumes "count_f (current_m s) \<noteq> - 1"
  shows "\<exists>evs. logLocked now (s, tr) =
     Some (s\<lparr>prev_m := current_m s, current_m := Values_init\<rparr>, tr @ LogLocked # evs) \<and>
     (if count_f (current_m s) = 0 then evs = [] else \<exists>e. evs = [LogEvent e])"
proof (cases "count_f (current_m s) = 0")
  case True
  then show ?thesis using logLocked_empty [of s now tr] by simp
next
  case False
  then show ?thesis using logLocked_nonempty [OF False assms, of now tr] by auto
qed

lemma FixedCountStat_add_first:
  assumes "test (aggregations_m s) MAX_agg" "test (aggregations_m s) MIN_agg"
    and "count_f (current_m s) = 0"
  shows "\<exists>s' tr'. FixedCountStat_add clk v (s, tr) = Some (s', tr') \<and>
     min_f (if windowSize_m s \<le>s 1 then prev_m s' else current_m s') = v \<and>
     max_f (if windowSize_m s \<le>s 1 then prev_m s' else current_m s') = v"
proof -
  obtain s1 tr1 where pre: "FixedCountStat_maybeLogLocked (fst clk) (s, tr) = Some (s1, tr1)"
    and s1: "count_f (current_m s1) = 0" "aggregations_m s1 = aggregations_m s"
      "windowSize_m s1 = windowSize_m s"
    using assms(3)
    by (cases "windowSize_m s \<le>s 0")
      (simp_all add: FixedCountStat_maybeLogLocked.simps logLocked.simps Let_def Values_init_def)
  let ?c = "accumulate (aggregations_m s1) v (current_m s1)"
  let ?s2 = "s1\<lparr>current_m := ?c\<rparr>"
  have c: "min_f ?c = v" "max_f ?c = v" "count_f ?c = 1"
    using accumulate_first [of "aggregations_m s1" "current_m s1" v] assms(1,2) s1 by simp_all
  have add: "FixedCountStat_add clk v (s, tr) = FixedCountStat_maybeLogLocked (snd clk) (?s2, tr1)"
    using pre by (simp add: FixedCountStat_add_def add_def)
  show ?thesis
  proof (cases "windowSize_m s \<le>s 1")
    case True
    have "count_f (current_m ?s2) \<noteq> - 1" using c(3) by simp
    from logLocked_events [OF this, of "snd clk" tr1] obtain evs where
      "logLocked (snd clk) (?s2, tr1) =
         Some (?s2\<lparr>prev_m := current_m ?s2, current_m := Values_init\<rparr>, tr1 @ LogLocked # evs)"
      by blast
    then have "FixedCountStat_add clk v (s, tr) = 
         Some (?s2\<lparr>prev_m := current_m ?s2, current_m := Values_init\<rparr>, tr1 @ LogLocked # evs)"
      using add True s1(3) c(3) by (simp add: FixedCountStat_maybeLogLocked.simps)
    then show ?thesis using True c by simp
  next
    case False
    then have "FixedCountStat_add clk v (s, tr) = Some (?s2, tr1)"
      using add s1(3) c(3) by (simp add: FixedCountStat_maybeLogLocked.simps)
    then show ?thesis using False c by simp
  qed
qed

lemma IntervalStat_maybeLogLocked_same:
  assumes "currentWindowId t s = Some w" "windowId_m s = w"
  shows "IntervalStat_maybeLogLocked t now (s, tr) = Some (s, tr)"
  using assms by (simp add: IntervalStat_maybeLogLocked.simps)

lemma IntervalStat_maybeLogLocked_new:
  assumes "currentWindowId t s = Some w" "windowId_m s \<noteq> w"
    and "count_f (current_m s) \<noteq> - 1"
  shows "\<exists>evs. IntervalStat_maybeLogLocked t now (s, tr) =
     Some (s\<lparr>prev_m := current_m s, current_m := Values_init, windowId_m := w\<rparr>,
           tr @ LogLocked # evs) \<and>
     (if count_f (current_m s) = 0 then evs = [] else \<exists>e. evs = [LogEvent e])"
proof -
  from logLocked_events [OF assms(3), of now tr] obtain evs where
    "logLocked now (s, tr) =
       Some (s\<lparr>prev_m := current_m s, current_m := Values_init\<rparr>, tr @ LogLocked # evs)"
    "if count_f (current_m s) = 0 then evs = [] else \<exists>e. evs = [LogEvent e]"
    by blast
  then show ?thesis
    using assms(1,2) by (simp add: IntervalStat_maybeLogLocked.simps)
qed

lemma IntervalStat_add_first:
  assumes "test (aggregations_m s) MAX_agg" "test (aggregations_m s) MIN_agg"
    and "count_f (current_m s) = 0"
    and "currentWindowId t1 s = Some w1" "currentWindowId t2 s = Some w2"
  shows "\<exists>s' tr'. IntervalStat_add ((t1, n1), (t2, n2)) v (s, tr) = Some (s', tr') \<and>
     min_f (if w2 \<noteq> w1 then prev_m s' else current_m s') = v \<and>
     max_f (if w2 \<noteq> w1 then prev_m s' else current_m s') = v"
proof -
  have m1: "count_f (current_m s) \<noteq> - 1" using assms(3) by simp
  obtain s1 tr1 where pre: "IntervalStat_maybeLogLocked t1 n1 (s, tr) = Some (s1, tr1)"
    and s1: "count_f (current_m s1) = 0" "aggregations_m s1 = aggregations_m s"
      "IntervalStat.windowSize_m s1 = IntervalStat.windowSize_m s" "windowId_m s1 = w1"
  proof (cases "windowId_m s = w1")
    case True
    with IntervalStat_maybeLogLocked_same [OF assms(4) True, of n1 tr] that assms(3)
    show ?thesis by blast
  next
    case False
    from IntervalStat_maybeLogLocked_new [OF assms(4) False m1, of n1 tr] obtain evs where
      "IntervalStat_maybeLogLocked t1 n1 (s, tr) =
        Some (s\<lparr>prev_m := current_m s, current_m := Values_init, windowId_m := w1\<rparr>,
           tr @ LogLocked # evs)" by blast
    then show ?thesis
      using that [of "s\<lparr>prev_m := current_m s, current_m := Values_init, windowId_m := w1\<rparr>"
                     "tr @ LogLocked # evs"]
      by (simp add: Values_init_def)
  qed
  let ?c = "accumulate (aggregations_m s1) v (current_m s1)"
  let ?s2 = "s1\<lparr>current_m := ?c\<rparr>"
  have c: "min_f ?c = v" "max_f ?c = v" "count_f ?c = 1"
    using accumulate_first [of "aggregations_m s1" "current_m s1" v] assms(1,2) s1 by simp_all
  have add: "IntervalStat_add ((t1, n1), (t2, n2)) v (s, tr) =
      IntervalStat_maybeLogLocked t2 n2 (?s2, tr1)"
    using pre by (simp add: IntervalStat_add_def add_def)
  have cw: "currentWindowId t2 ?s2 = Some w2"
    using assms(5) s1(3) by (simp add: currentWindowId_def)
  show ?thesis
  proof (cases "w2 = w1")
    case True
    then have "windowId_m ?s2 = w2" using s1(4) by simp
    from IntervalStat_maybeLogLocked_same [OF cw this, of n2 tr1] add True c
    show ?thesis by simp
  next
    case False
    then have ne: "windowId_m ?s2 \<noteq> w2" using s1(4) by simp
    have "count_f (current_m ?s2) \<noteq> - 1" using c(3) by simp
    from IntervalStat_maybeLogLocked_new [OF cw ne this, of n2 tr1] add False c
    show ?thesis by auto
  qed
qed

subsection \<open>What one call of \<open>maybeLogLocked\<close> can do\<close>

lemma FixedCountStat_maybeLogLocked_shape:
  assumes "FixedCountStat_maybeLogLocked now (s, tr) = Some (s', tr')"
  shows "(s' = s \<and> tr' = tr) \<or>
         (s' = s\<lparr>prev_m := current_m s, current_m := Values_init\<rparr> \<and>
          (\<exists>evs. tr' = tr @ LogLocked # evs))"
  using assms logLocked_shape [of now s tr s' tr']
  by (simp add: FixedCountStat_maybeLogLocked.simps split: if_splits)

lemma IntervalStat_maybeLogLocked_shape:
  assumes "IntervalStat_maybeLogLocked t now (s, tr) = Some (s', tr')"
  shows "\<exists>w. currentWindowId t s = Some w \<and>
         ((windowId_m s = w \<and> s' = s \<and> tr' = tr) \<or>
          (windowId_m s \<noteq> w \<and>
           s' = s\<lparr>prev_m := current_m s, current_m := Values_init, windowId_m := w\<rparr> \<and>
           (\<exists>evs. tr' = tr @ LogLocked # evs)))"
proof -
  from assms obtain w where w: "currentWindowId t s = Some w"
    by (auto simp: IntervalStat_maybeLogLocked.simps bind_eq_Some_conv)
  show ?thesis
  proof (cases "windowId_m s = w")
    case True
    with assms w show ?thesis by (simp add: IntervalStat_maybeLogLocked.simps)
  next
    case False
    with assms w obtain s1 tr1 where l: "logLocked now (s, tr) = Some (s1, tr1)"
      and r: "s' = s1\<lparr>windowId_m := w\<rparr>" "tr' = tr1"
      by (auto simp: IntervalStat_maybeLogLocked.simps bind_eq_Some_conv)
    from logLocked_shape [OF l] r w False show ?thesis by auto
  qed
qed

lemma IntervalStat_add_windowId:
  assumes "IntervalStat_add ((t1, n1), (t2, n2)) v (s, tr) = Some (s', tr')"
    and "currentWindowId t2 s = Some w2"
  shows "windowId_m s' = w2 \<and> IntervalStat.windowSize_m s' = IntervalStat.windowSize_m s"
proof -
  from assms(1) obtain s1 tr1 where
    pre: "IntervalStat_maybeLogLocked t1 n1 (s, tr) = Some (s1, tr1)" and
    post: "IntervalStat_maybeLogLocked t2 n2
             (s1\<lparr>current_m := accumulate (aggregations_m s1) v (current_m s1)\<rparr>, tr1) =
           Some (s', tr')"
    by (auto simp: IntervalStat_add_def add_def bind_eq_Some_conv)
  from IntervalStat_maybeLogLocked_shape [OF pre]
  have ws: "IntervalStat.windowSize_m s1 = IntervalStat.windowSize_m s" by auto
  then have "currentWindowId t2
      (s1\<lparr>current_m := accumulate (aggregations_m s1) v (current_m s1)\<rparr>) = Some w2"
    using assms(2) by (simp add: currentWindowId_def)
  with IntervalStat_maybeLogLocked_shape [OF post] ws show ?thesis by auto
qed

lemma IntervalStat_add_same_bucket:
  assumes "currentWindowId t1 s = Some (windowId_m s)"
    and "currentWindowId t2 s = Some (windowId_m s)"
  shows "IntervalStat_add ((t1, n1), (t2, n2)) v (s, tr) =
         Some (s\<lparr>current_m := accumulate (aggregations_m s) v (current_m s)\<rparr>, tr)"
proof -
  let ?s2 = "s\<lparr>current_m := accumulate (aggregations_m s) v (current_m s)\<rparr>"
  have pre: "IntervalStat_maybeLogLocked t1 n1 (s, tr) = Some (s, tr)"
    using assms(1) by (intro IntervalStat_maybeLogLocked_same) simp_all
  have "currentWindowId t2 ?s2 = Some (windowId_m ?s2)"
    using assms(2) by (simp add: currentWindowId_def)
  then have "IntervalStat_maybeLogLocked t2 n2 (?s2, tr) = Some (?s2, tr)"
    by (intro IntervalStat_maybeLogLocked_same) simp_all
  with pre show ?thesis by (simp add: IntervalStat_add_def add_def)
qed

lemma IntervalStat_add_new_bucket:
  assumes "currentWindowId t1 s = Some w" "currentWindowId t2 s = Some w"
    and "w \<noteq> windowId_m s" and "0 \<le>s count_f (current_m s)"
  shows "\<exists>evs. IntervalStat_add ((t1, n1), (t2, n2)) v (s, tr) =
           Some (s\<lparr>prev_m := current_m s,
                   current_m := accumulate (aggregations_m s) v Values_init,
                   windowId_m := w\<rparr>, tr @ LogLocked # evs) \<and>
         (if count_f (current_m s) = 0 then evs = [] else \<exists>e. evs = [LogEvent e])"
proof -
  have "count_f (current_m s) \<noteq> - 1"
    using assms(4) by (auto simp: word_sle_eq)
  from IntervalStat_maybeLogLocked_new [OF assms(1) _ this, of n1 tr] assms(3)
  obtain evs where
    pre: "IntervalStat_maybeLogLocked t1 n1 (s, tr) =
      Some (s\<lparr>prev_m := current_m s, current_m := Values_init, windowId_m := w\<rparr>,
           tr @ LogLocked # evs)"
    and evs: "if count_f (current_m s) = 0 then evs = [] else \<exists>e. evs = [LogEvent e]"
    by auto
  let ?s1 = "s\<lparr>prev_m := current_m s, current_m := Values_init, windowId_m := w\<rparr>"
  let ?s2 = "s\<lparr>prev_m := current_m s,
                current_m := accumulate (aggregations_m s) v Values_init,
                windowId_m := w\<rparr>"
  have fold: "?s1\<lparr>current_m := accumulate (aggregations_m ?s1) v (current_m ?s1)\<rparr> = ?s2"
    by simp
  have "currentWindowId t2 ?s2 = Some w"
    using assms(2) by (simp add: currentWindowId_def)
  then have post: "IntervalStat_maybeLogLocked t2 n2 (?s2, tr @ LogLocked # evs) =
      Some (?s2, tr @ LogLocked # evs)"
    by (intro IntervalStat_maybeLogLocked_same) simp_all
  have "IntervalStat_add ((t1, n1), (t2, n2)) v (s, tr) =
      IntervalStat_maybeLogLocked t2 n2
        (?s1\<lparr>current_m := accumulate (aggregations_m ?s1) v (current_m ?s1)\<rparr>,
         tr @ LogLocked # evs)"
    using pre by (simp add: IntervalStat_add_def add_def)
  also have "\<dots> = Some (?s2, tr @ LogLocked # evs)"
    unfolding fold by (rule post)
  finally show ?thesis using evs by blast
qed

subsection \<open>Runs that close no window\<close>

lemma call_seq_log_grows:
  assumes step: "\<And>x s tr s' tr'. f x (s, tr) = Some (s', tr') \<Longrightarrow> \<exists>ext. tr' = tr @ ext"
    and run: "call_seq f xs (s, tr) = Some (s', tr')"
  shows "\<exists>ext. tr' = tr @ ext"
  using run
proof (induction xs arbitrary: s tr)
  case Nil
  then show ?case by simp
next
  case (Cons x xs)
  then obtain s1 tr1 where 1: "f x (s, tr) = Some (s1, tr1)"
    and 2: "call_seq f xs (s1, tr1) = Some (s', tr')"
    by (auto simp: bind_eq_Some_conv)
  from step [OF 1] Cons.IH [OF 2] show ?case by auto
qed

lemma call_seq_count:
  fixes cnt :: "'s \<Rightarrow> int64_t"
  assumes step: "\<And>x s tr s' tr'. f x (s, tr) = Some (s', tr') \<Longrightarrow>
      \<exists>ext. tr' = tr @ ext \<and> (ext = [] \<longrightarrow> cnt s' = cnt s + 1)"
    and run: "call_seq f xs (s, tr) = Some (s', tr)"
  shows "cnt s' = cnt s + of_nat (length xs)"
  using run
proof (induction xs arbitrary: s)
  case Nil
  then show ?case by simp
next
  case (Cons x xs)
  then obtain s1 tr1 where 1: "f x (s, tr) = Some (s1, tr1)"
    and 2: "call_seq f xs (s1, tr1) = Some (s', tr)"
    by (auto simp: bind_eq_Some_conv)
  from step [OF 1] obtain e1 where e1: "tr1 = tr @ e1" "e1 = [] \<longrightarrow> cnt s1 = cnt s + 1"
    by blast
  have "\<exists>ext. tr = tr1 @ ext"
    using 2 step by (intro call_seq_log_grows [of f xs s1 tr1 s' tr]) blast+
  with e1(1) have "e1 = []" by auto
  with e1 2 have "cnt s1 = cnt s + 1" "call_seq f xs (s1, tr) = Some (s', tr)"
    by simp_all
  with Cons.IH [of s1] show ?case by simp
qed

lemma FixedCountStat_add_log:
  assumes "FixedCountStat_add clk v (s, tr) = Some (s', tr')"
  shows "\<exists>ext. tr' = tr @ ext \<and>
     (ext = [] \<longrightarrow> count_f (current_m s') = count_f (current_m s) + 1)"
proof -
  from assms obtain s1 tr1 where
    pre: "FixedCountStat_maybeLogLocked (fst clk) (s, tr) = Some (s1, tr1)" and
    post: "FixedCountStat_maybeLogLocked (snd clk)
             (s1\<lparr>current_m := accumulate (aggregations_m s1) v (current_m s1)\<rparr>, tr1) =
           Some (s', tr')"
    by (auto simp: FixedCountStat_add_def add_def bind_eq_Some_conv)
  from FixedCountStat_maybeLogLocked_shape [OF pre] FixedCountStat_maybeLogLocked_shape [OF post]
  show ?thesis by (auto simp: count_accumulate)
qed

lemma IntervalStat_add_log:
  assumes "IntervalStat_add clk v (s, tr) = Some (s', tr')"
  shows "\<exists>ext. tr' = tr @ ext \<and>
     (ext = [] \<longrightarrow> count_f (current_m s') = count_f (current_m s) + 1)"
proof -
  from assms obtain s1 tr1 where
    pre: "IntervalStat_maybeLogLocked (fst (fst clk)) (snd (fst clk)) (s, tr) = Some (s1, tr1)" and
    post: "IntervalStat_maybeLogLocked (fst (snd clk)) (snd (snd clk))
             (s1\<lparr>current_m := accumulate (aggregations_m s1) v (current_m s1)\<rparr>, tr1) =
           Some (s', tr')"
    by (auto simp: IntervalStat_add_def add_def bind_eq_Some_conv)
  from IntervalStat_maybeLogLocked_shape [OF pre] IntervalStat_maybeLogLocked_shape [OF post]
  show ?thesis by (auto simp: count_accumulate)
qed

lemma IntervalStat_adds_same_bucket:
  assumes "\<forall>x \<in> set ys.
      currentWindowId (fst (fst (fst x))) s = Some (windowId_m s) \<and>
      currentWindowId (fst (snd (fst x))) s = Some (windowId_m s)"
  shows "\<exists>s'. IntervalStat_adds ys (s, tr) = Some (s', tr) \<and>
      count_f (current_m s') = count_f (current_m s) + of_nat (length ys)"
  using assms
proof (induction ys arbitrary: s)
  case Nil
  then show ?case by (simp add: IntervalStat_adds_def)
next
  case (Cons y ys)
  obtain t1 n1 t2 n2 v where y: "y = (((t1, n1), (t2, n2)), v)"
    by (metis surj_pair)
  let ?s1 = "s\<lparr>current_m := accumulate (aggregations_m s) v (current_m s)\<rparr>"
  have step: "IntervalStat_add ((t1, n1), (t2, n2)) v (s, tr) = Some (?s1, tr)"
    using Cons.prems y by (intro IntervalStat_add_same_bucket) simp_all
  have "\<forall>x \<in> set ys.
      currentWindowId (fst (fst (fst x))) ?s1 = Some (windowId_m ?s1) \<and>
      currentWindowId (fst (snd (fst x))) ?s1 = Some (windowId_m ?s1)"
    using Cons.prems by (simp add: currentWindowId_def)
  from Cons.IH [OF this] obtain s' where
    s': "IntervalStat_adds ys (?s1, tr) = Some (s', tr)"
      "count_f (current_m s') = count_f (current_m ?s1) + of_nat (length ys)"
    by blast
  have "IntervalStat_adds (y # ys) (s, tr) = Some (s', tr)"
    using step s'(1) y by (simp add: IntervalStat_adds_def)
  moreover have "count_f (current_m s') = count_f (current_m s) + of_nat (length (y # ys))"
    using s'(2) by (simp add: count_accumulate)
  ultimately show ?case by blast
qed

subsection \<open>The aggregation set of an object\<close>

lemma FixedCountStat_add_aggregations:
  assumes "FixedCountStat_add clk v (s, tr) = Some (s', tr')"
  shows "aggregations_m s' = aggregations_m s"
proof -
  from assms obtain s1 tr1 where
    pre: "FixedCountStat_maybeLogLocked (fst clk) (s, tr) = Some (s1, tr1)" and
    post: "FixedCountStat_maybeLogLocked (snd clk)
             (s1\<lparr>current_m := accumulate (aggregations_m s1) v (current_m s1)\<rparr>, tr1) =
           Some (s', tr')"
    by (auto simp: FixedCountStat_add_def add_def bind_eq_Some_conv)
  from FixedCountStat_maybeLogLocked_shape [OF pre] FixedCountStat_maybeLogLocked_shape [OF post]
  show ?thesis by auto
qed

lemma IntervalStat_add_aggregations:
  assumes "IntervalStat_add clk v (s, tr) = Some (s', tr')"
  shows "aggregations_m s' = aggregations_m s"
proof -
  from assms obtain s1 tr1 where
    pre: "IntervalStat_maybeLogLocked (fst (fst clk)) (snd (fst clk)) (s, tr) = Some (s1, tr1)" and
    post: "IntervalStat_maybeLogLocked (fst (snd clk)) (snd (snd clk))
             (s1\<lparr>current_m := accumulate (aggregations_m s1) v (current_m s1)\<rparr>, tr1) =
           Some (s', tr')"
    by (auto simp: IntervalStat_add_def add_def bind_eq_Some_conv)
  from IntervalStat_maybeLogLocked_shape [OF pre] IntervalStat_maybeLogLocked_shape [OF post]
  show ?thesis by auto
qed

subsection \<open>Windows of reachable states\<close>

lemma window_step:
  assumes c1: "c1 = c \<or> c1 = Values_init"
    and c': "c' = accumulate aggs v c1 \<or> c' = Values_init"
    and inv: "0 \<le> sint (count_f c)" "sint (count_f c) \<le> int k"
    and k: "k < 2 ^ 63 - 1"
  shows "0 \<le> sint (count_f c') \<and> sint (count_f c') \<le> int (Suc k) \<and>
         (count_f c' = 0 \<longrightarrow> c' = Values_init)"
proof -
  have i1: "0 \<le> sint (count_f c1)" "sint (count_f c1) \<le> int k"
    using c1 inv by (auto simp: Values_init_def)
  then have "sint (count_f c1) < 2 ^ 63 - 1"
    using k by simp
  then have s: "sint (count_f (accumulate aggs v c1)) = sint (count_f c1) + 1"
    by (simp add: count_accumulate sint_succ)
  then have "count_f (accumulate aggs v c1) \<noteq> 0"
    using i1 by auto
  with c' s i1 show ?thesis
    by (auto simp: Values_init_def)
qed

lemma call_seq_invariant:
  assumes step: "\<And>x s tr s' tr' k. f x (s, tr) = Some (s', tr') \<Longrightarrow> P k s \<Longrightarrow>
      k < 2 ^ 63 - 1 \<Longrightarrow> P (Suc k) s'"
    and run: "call_seq f xs (s, tr) = Some (s', tr')"
    and start: "P k s"
    and len: "k + length xs < 2 ^ 63"
  shows "P (k + length xs) s'"
  using run start len
proof (induction xs arbitrary: s tr k)
  case Nil
  then show ?case by simp
next
  case (Cons x xs)
  from Cons.prems(1) obtain s1 tr1 where 1: "f x (s, tr) = Some (s1, tr1)"
    and 2: "call_seq f xs (s1, tr1) = Some (s', tr')"
    by (auto simp: bind_eq_Some_conv)
  have "P (Suc k) s1"
    using 1 Cons.prems(2,3) by (intro step [of x s tr s1 tr1 k]) simp_all
  from Cons.IH [OF 2 this] Cons.prems(3) show ?case by simp
qed

lemma FixedCountStat_add_window:
  assumes "FixedCountStat_add clk v (s, tr) = Some (s', tr')"
    and "0 \<le> sint (count_f (current_m s)) \<and> sint (count_f (current_m s)) \<le> int k \<and>
         (count_f (current_m s) = 0 \<longrightarrow> current_m s = Values_init)"
    and "k < 2 ^ 63 - 1"
  shows "0 \<le> sint (count_f (current_m s')) \<and> sint (count_f (current_m s')) \<le> int (Suc k) \<and>
         (count_f (current_m s') = 0 \<longrightarrow> current_m s' = Values_init)"
proof -
  from assms(1) obtain s1 tr1 where
    pre: "FixedCountStat_maybeLogLocked (fst clk) (s, tr) = Some (s1, tr1)" and
    post: "FixedCountStat_maybeLogLocked (snd clk)
             (s1\<lparr>current_m := accumulate (aggregations_m s1) v (current_m s1)\<rparr>, tr1) =
           Some (s', tr')"
    by (auto simp: FixedCountStat_add_def add_def bind_eq_Some_conv)
  have a: "current_m s1 = current_m s \<or> current_m s1 = Values_init"
    using FixedCountStat_maybeLogLocked_shape [OF pre] by auto
  have b: "current_m s' = accumulate (aggregations_m s1) v (current_m s1) \<or>
      current_m s' = Values_init"
    using FixedCountStat_maybeLogLocked_shape [OF post] by auto
  from assms(2) have c: "0 \<le> sint (count_f (current_m s))"
    and d: "sint (count_f (current_m s)) \<le> int k"
    by blast+
  from a b c d assms(3) show ?thesis by (rule window_step)
qed

lemma IntervalStat_add_window:
  assumes "IntervalStat_add clk v (s, tr) = Some (s', tr')"
    and "0 \<le> sint (count_f (current_m s)) \<and> sint (count_f (current_m s)) \<le> int k \<and>
         (count_f (current_m s) = 0 \<longrightarrow> current_m s = Values_init)"
    and "k < 2 ^ 63 - 1"
  shows "0 \<le> sint (count_f (current_m s')) \<and> sint (count_f (current_m s')) \<le> int (Suc k) \<and>
         (count_f (current_m s') = 0 \<longrightarrow> current_m s' = Values_init)"
proof -
  from assms(1) obtain s1 tr1 where
    pre: "IntervalStat_maybeLogLocked (fst (fst clk)) (snd (fst clk)) (s, tr) = Some (s1, tr1)" and
    post: "IntervalStat_maybeLogLocked (fst (snd clk)) (snd (snd clk))
             (s1\<lparr>current_m := accumulate (aggregations_m s1) v (current_m s1)\<rparr>, tr1) =
           Some (s', tr')"
    by (auto simp: IntervalStat_add_def add_def bind_eq_Some_conv)
  have a: "current_m s1 = current_m s \<or> current_m s1 = Values_init"
    using IntervalStat_maybeLogLocked_shape [OF pre] by auto
  have b: "current_m s' = accumulate (aggregations_m s1) v (current_m s1) \<or>
      current_m s' = Values_init"
    using IntervalStat_maybeLogLocked_shape [OF post] by auto
  from assms(2) have c: "0 \<le> sint (count_f (current_m s))"
    and d: "sint (count_f (current_m s)) \<le> int k"
    by blast+
  from a b c d assms(3) show ?thesis by (rule window_step)
qed

lemma FixedCountStat_reachable_window:
  assumes "FixedCountStat_adds xs (FixedCountStat_ctor name aggs n tr0) = Some (s, tr)"
    and "length xs < 2 ^ 63"
  shows "0 \<le> sint (count_f (current_m s)) \<and>
         (count_f (current_m s) = 0 \<longrightarrow> current_m s = Values_init)"
proof -
  let ?P = "\<lambda>k s. 0 \<le> sint (count_f (current_m s)) \<and> sint (count_f (current_m s)) \<le> int k \<and>
         (count_f (current_m s) = 0 \<longrightarrow> current_m s = Values_init)"
  have "?P (0 + length xs) s"
  proof (rule call_seq_invariant [where P = ?P and f = "\<lambda>x. FixedCountStat_add (fst x) (snd x)"
        and s = "fst (FixedCountStat_ctor name aggs n tr0)"
        and tr = "snd (FixedCountStat_ctor name aggs n tr0)" and tr' = tr])
    show "?P (Suc k) s'"
      if "FixedCountStat_add (fst x) (snd x) (s, tr) = Some (s', tr')" "?P k s" "k < 2 ^ 63 - 1"
      for x and s s' :: FixedCountStat and tr tr' k
      using that by (rule FixedCountStat_add_window)
    show "call_seq (\<lambda>x. FixedCountStat_add (fst x) (snd x)) xs
        (fst (FixedCountStat_ctor name aggs n tr0), snd (FixedCountStat_ctor name aggs n tr0)) =
        Some (s, tr)"
      using assms(1) by (simp add: FixedCountStat_adds_def)
    show "?P 0 (fst (FixedCountStat_ctor name aggs n tr0))"
      by (simp add: FixedCountStat_ctor_def Values_init_def)
    show "0 + length xs < 2 ^ 63"
      using assms(2) by simp
  qed
  then show ?thesis by simp
qed

lemma IntervalStat_reachable_window:
  assumes "IntervalStat_adds xs (IntervalStat_ctor name aggs w tr0) = Some (s, tr)"
    and "length xs < 2 ^ 63"
  shows "0 \<le> sint (count_f (current_m s)) \<and>
         (count_f (current_m s) = 0 \<longrightarrow> current_m s = Values_init)"
proof -
  let ?P = "\<lambda>k s. 0 \<le> sint (count_f (current_m s)) \<and> sint (count_f (current_m s)) \<le> int k \<and>
         (count_f (current_m s) = 0 \<longrightarrow> current_m s = Values_init)"
  have "?P (0 + length xs) s"
  proof (rule call_seq_invariant [where P = ?P and f = "\<lambda>x. IntervalStat_add (fst x) (snd x)"
        and s = "fst (IntervalStat_ctor name aggs w tr0)"
        and tr = "snd (IntervalStat_ctor name aggs w tr0)" and tr' = tr])
    show "?P (Suc k) s'"
      if "IntervalStat_add (fst x) (snd x) (s, tr) = Some (s', tr')" "?P k s" "k < 2 ^ 63 - 1"
      for x and s s' :: IntervalStat and tr tr' k
      using that by (rule IntervalStat_add_window)
    show "call_seq (\<lambda>x. IntervalStat_add (fst x) (snd x)) xs
        (fst (IntervalStat_ctor name aggs w tr0), snd (IntervalStat_ctor name aggs w tr0)) =
        Some (s, tr)"
      using assms(1) by (simp add: IntervalStat_adds_def)
    show "?P 0 (fst (IntervalStat_ctor name aggs w tr0))"
      by (simp add: IntervalStat_ctor_def Values_init_def)
    show "0 + length xs < 2 ^ 63"
      using assms(2) by simp
  qed
  then show ?thesis by simp
qed

subsection \<open>Concrete runs\<close>

lemma interval_ctor_windowId:
  "currentWindowId 61000000000 (fst (IntervalStat_ctor ''x'' [MAX_agg, MIN_agg] 60000 [])) = Some 1"
  "currentWindowId 200000000000 (fst (IntervalStat_ctor ''x'' [MAX_agg, MIN_agg] 60000 [])) = Some 3"
  by (simp_all add: currentWindowId_def IntervalStat_ctor_def div_T_def ticks_per_ms_def
        signed_divide_int_def)

lemma interval_example_windowId:
  "currentWindowId 61000000000 interval_example = Some 1"
  "currentWindowId 62000000000 interval_example = Some 1"
  "currentWindowId 200000000000 interval_example = Some 3"
  "currentWindowId 201000000000 interval_example = Some 3"
  by (simp_all add: currentWindowId_def interval_example_def div_T_def ticks_per_ms_def
        signed_divide_int_def)

lemma latency_getLocked:
  assumes "aggregations_m s = merge [SUM_agg, COUNT_agg, MEAN_agg]"
    and "prev_m s = \<lparr>value_f = 0, sum_f = 60, min_f = 0, max_f = 0, count_f = 3\<rparr>"
  shows "getLocked s = Some [SUM_agg \<mapsto> 60, COUNT_agg \<mapsto> 3, MEAN_agg \<mapsto> 20]"
proof -
  have "div_T 60 3 = Some 20"
    by (simp add: div_T_def signed_divide_int_def)
  then have "getLocked s = Some [MEAN_agg \<mapsto> 20, COUNT_agg \<mapsto> 3, SUM_agg \<mapsto> 60]"
    using assms by (simp add: getLocked_def Let_def test_merge emplace_def)
  moreover have "[MEAN_agg \<mapsto> 20, COUNT_agg \<mapsto> 3, SUM_agg \<mapsto> 60 :: int64_t] =
      [SUM_agg \<mapsto> 60, COUNT_agg \<mapsto> 3, MEAN_agg \<mapsto> 20]"
    by (auto simp: fun_eq_iff)
  ultimately show ?thesis by simp
qed

lemma latency_metadata:
  "build_metadata ''latency'' [SUM_agg \<mapsto> 60, COUNT_agg \<mapsto> 3, MEAN_agg \<mapsto> 20] =
   [''latency.sum'' \<mapsto> 60, ''latency.count'' \<mapsto> 3, ''latency.mean'' \<mapsto> 20]"
proof -
  have "build_metadata ''latency'' [SUM_agg \<mapsto> 60, COUNT_agg \<mapsto> 3, MEAN_agg \<mapsto> 20] =
      [''latency.mean'' \<mapsto> 20, ''latency.count'' \<mapsto> 3, ''latency.sum'' \<mapsto> 60]"
    by (simp add: build_metadata_def all_aggregations_def metadata_key_def)
  also have "\<dots> = [''latency.sum'' \<mapsto> 60, ''latency.count'' \<mapsto> 3, ''latency.mean'' \<mapsto> 20]"
    by (auto simp: fun_eq_iff)
  finally show ?thesis .
qed

lemma latency_run:
  "FixedCountStat_adds [((a1, a2), 10), ((b1, b2), 20), ((c1, c2), 30)]
     (FixedCountStat_ctor ''latency'' [SUM_agg, COUNT_agg, MEAN_agg] 3 []) =
   Some (\<lparr>name_m = ''latency'', aggregations_m = merge [SUM_agg, COUNT_agg, MEAN_agg],
          current_m = Values_init,
          prev_m = \<lparr>value_f = 0, sum_f = 60, min_f = 0, max_f = 0, count_f = 3\<rparr>,
          windowSize_m = 3\<rparr>,
         [RegisterStat, LogLocked,
          LogEvent \<lparr>type_f = ''torch.monitor.Stat'', message_f = ''latency'', timestamp_f = c2,
                    metadata_f = [''latency.sum'' \<mapsto> 60, ''latency.count'' \<mapsto> 3,
                                  ''latency.mean'' \<mapsto> 20]\<rparr>])"
proof -
  let ?s = "\<lambda>c. \<lparr>name_m = ''latency'', aggregations_m = merge [SUM_agg, COUNT_agg, MEAN_agg],
          current_m = c, prev_m = Values_init, windowSize_m = 3 :: int64_t\<rparr>"
  have 1: "FixedCountStat_add (a1, a2) 10 (?s Values_init, [RegisterStat]) =
      Some (?s \<lparr>value_f = 0, sum_f = 10, min_f = 0, max_f = 0, count_f = 1\<rparr>, [RegisterStat])"
    by (simp add: FixedCountStat_add_def add_def FixedCountStat_maybeLogLocked.simps
          accumulate_def test_merge word_sle_eq Values_init_def)
  have 2: "FixedCountStat_add (b1, b2) 20
        (?s \<lparr>value_f = 0, sum_f = 10, min_f = 0, max_f = 0, count_f = 1\<rparr>, [RegisterStat]) =
      Some (?s \<lparr>value_f = 0, sum_f = 30, min_f = 0, max_f = 0, count_f = 2\<rparr>, [RegisterStat])"
    by (simp add: FixedCountStat_add_def add_def FixedCountStat_maybeLogLocked.simps
          accumulate_def test_merge word_sle_eq)
  have g: "getLocked \<lparr>name_m = ''latency'',
          aggregations_m = merge [SUM_agg, COUNT_agg, MEAN_agg],
          current_m = Values_init,
          prev_m = \<lparr>value_f = 0, sum_f = 60, min_f = 0, max_f = 0, count_f = 3\<rparr>,
          windowSize_m = 3 :: int64_t\<rparr> =
        Some [SUM_agg \<mapsto> 60, COUNT_agg \<mapsto> 3, MEAN_agg \<mapsto> 20]"
    by (rule latency_getLocked) simp_all
  have 3: "FixedCountStat_add (c1, c2) 30
        (?s \<lparr>value_f = 0, sum_f = 30, min_f = 0, max_f = 0, count_f = 2\<rparr>, [RegisterStat]) =
      Some (\<lparr>name_m = ''latency'', aggregations_m = merge [SUM_agg, COUNT_agg, MEAN_agg],
          current_m = Values_init,
          prev_m = \<lparr>value_f = 0, sum_f = 60, min_f = 0, max_f = 0, count_f = 3\<rparr>,
          windowSize_m = 3\<rparr>,
         [RegisterStat, LogLocked,
          LogEvent \<lparr>type_f = ''torch.monitor.Stat'', message_f = ''latency'', timestamp_f = c2,
                    metadata_f = [''latency.sum'' \<mapsto> 60, ''latency.count'' \<mapsto> 3,
                                  ''latency.mean'' \<mapsto> 20]\<rparr>])"
    by (simp add: FixedCountStat_add_def add_def FixedCountStat_maybeLogLocked.simps
          accumulate_def test_merge word_sle_eq logLocked.simps g latency_metadata logEvent_def)
  show ?thesis
    by (simp add: FixedCountStat_adds_def FixedCountStat_ctor_def registerStat_def 1 2 3)
qed

lemma interval_race_run:
  "\<exists>s e. IntervalStat_adds [(((61000000000, 1), (200000000000, 2)), 5)]
     (IntervalStat_ctor ''x'' [SUM_agg] 60000 []) =
     Some (s, [RegisterStat, LogLocked, LogLocked, LogEvent e]) \<and> current_m s = Values_init \<and>
     sum_f (prev_m s) = 5"
proof -
  let ?i = "fst (IntervalStat_ctor ''x'' [SUM_agg] 60000 [])"
  have w: "currentWindowId 61000000000 ?i = Some 1" "currentWindowId 200000000000 ?i = Some 3"
    by (simp_all add: currentWindowId_def IntervalStat_ctor_def div_T_def ticks_per_ms_def
        signed_divide_int_def)
  have "count_f (current_m ?i) \<noteq> - 1" "windowId_m ?i \<noteq> 1"
    by (simp_all add: IntervalStat_ctor_def Values_init_def)
  from IntervalStat_maybeLogLocked_new [OF w(1) this(2,1), of 1 "[RegisterStat]"]
  have pre: "IntervalStat_maybeLogLocked 61000000000 1 (?i, [RegisterStat]) =
      Some (?i\<lparr>prev_m := current_m ?i, current_m := Values_init, windowId_m := 1\<rparr>,
            [RegisterStat, LogLocked])"
    by (auto simp: IntervalStat_ctor_def Values_init_def)
  let ?i1 = "?i\<lparr>prev_m := current_m ?i, current_m := Values_init, windowId_m := 1\<rparr>"
  let ?i2 = "?i1\<lparr>current_m := accumulate (aggregations_m ?i1) 5 (current_m ?i1)\<rparr>"
  have c2: "current_m ?i2 = \<lparr>value_f = 0, sum_f = 5, min_f = 0, max_f = 0, count_f = 1\<rparr>"
    by (simp add: accumulate_def IntervalStat_ctor_def Values_init_def test_merge)
  have w2: "currentWindowId 200000000000 ?i2 = Some 3"
    using w(2) by (simp add: currentWindowId_def)
  have "count_f (current_m ?i2) \<noteq> - 1" "windowId_m ?i2 \<noteq> 3"
    by (simp_all add: count_accumulate Values_init_def)
  from IntervalStat_maybeLogLocked_new [OF w2 this(2,1), of 2 "[RegisterStat, LogLocked]"]
  obtain evs where post: "IntervalStat_maybeLogLocked 200000000000 2 (?i2, [RegisterStat, LogLocked]) =
      Some (?i2\<lparr>prev_m := current_m ?i2, current_m := Values_init, windowId_m := 3\<rparr>,
            [RegisterStat, LogLocked] @ LogLocked # evs)"
    and "if count_f (current_m ?i2) = 0 then evs = [] else \<exists>e. evs = [LogEvent e]"
    by blast
  then obtain e where e: "evs = [LogEvent e]"
    by (auto simp: count_accumulate Values_init_def split: if_splits)
  have "IntervalStat_add ((61000000000, 1), (200000000000, 2)) 5 (?i, [RegisterStat]) =
      Some (?i2\<lparr>prev_m := current_m ?i2, current_m := Values_init, windowId_m := 3\<rparr>,
            [RegisterStat, LogLocked, LogLocked, LogEvent e])"
    using pre post e by (simp add: IntervalStat_add_def add_def)
  moreover have "(?i, [RegisterStat]) = IntervalStat_ctor ''x'' [SUM_agg] 60000 []"
    by (simp add: IntervalStat_ctor_def registerStat_def)
  ultimately have "IntervalStat_adds [(((61000000000, 1), (200000000000, 2)), 5)]
     (IntervalStat_ctor ''x'' [SUM_agg] 60000 []) =
      Some (?i2\<lparr>prev_m := current_m ?i2, current_m := Values_init, windowId_m := 3\<rparr>,
            [RegisterStat, LogLocked, LogLocked, LogEvent e])"
    by (simp add: IntervalStat_adds_def)
  moreover have "sum_f (prev_m (?i2\<lparr>prev_m := current_m ?i2, current_m := Values_init,
      windowId_m := 3\<rparr>)) = 5"
    using c2 by simp
  ultimately show ?thesis by auto
qed

lemma interval_example_race:
  "\<exists>s e1 e2. IntervalStat_add ((179999999999, 1), (180000000000, 2)) 5 (interval_example, []) =
     Some (s, [LogLocked, LogEvent e1, LogLocked, LogEvent e2])"
proof -
  let ?i = "interval_example"
  have w: "currentWindowId 179999999999 ?i = Some 2" "currentWindowId 180000000000 ?i = Some 3"
    by (simp_all add: currentWindowId_def interval_example_def div_T_def ticks_per_ms_def
        signed_divide_int_def)
  have "count_f (current_m ?i) \<noteq> - 1" "windowId_m ?i \<noteq> 2"
    by (simp_all add: interval_example_def)
  from IntervalStat_maybeLogLocked_new [OF w(1) this(2,1), of 1 "[]"]
  obtain evs where pre: "IntervalStat_maybeLogLocked 179999999999 1 (?i, []) =
      Some (?i\<lparr>prev_m := current_m ?i, current_m := Values_init, windowId_m := 2\<rparr>,
            [] @ LogLocked # evs)"
    and "if count_f (current_m ?i) = 0 then evs = [] else \<exists>e. evs = [LogEvent e]"
    by blast
  then obtain e1 where e1: "evs = [LogEvent e1]"
    by (auto simp: interval_example_def split: if_splits)
  let ?i1 = "?i\<lparr>prev_m := current_m ?i, current_m := Values_init, windowId_m := 2\<rparr>"
  let ?i2 = "?i1\<lparr>current_m := accumulate (aggregations_m ?i1) 5 (current_m ?i1)\<rparr>"
  have w2: "currentWindowId 180000000000 ?i2 = Some 3"
    using w(2) by (simp add: currentWindowId_def)
  have "count_f (current_m ?i2) \<noteq> - 1" "windowId_m ?i2 \<noteq> 3"
    by (simp_all add: count_accumulate Values_init_def)
  from IntervalStat_maybeLogLocked_new [OF w2 this(2,1), of 2 "[LogLocked, LogEvent e1]"]
  obtain evs2 where post: "IntervalStat_maybeLogLocked 180000000000 2 (?i2, [LogLocked, LogEvent e1]) =
      Some (?i2\<lparr>prev_m := current_m ?i2, current_m := Values_init, windowId_m := 3\<rparr>,
            [LogLocked, LogEvent e1] @ LogLocked # evs2)"
    and "if count_f (current_m ?i2) = 0 then evs2 = [] else \<exists>e. evs2 = [LogEvent e]"
    by blast
  then obtain e2 where e2: "evs2 = [LogEvent e2]"
    by (auto simp: count_accumulate Values_init_def split: if_splits)
  have "IntervalStat_add ((179999999999, 1), (180000000000, 2)) 5 (?i, []) =
      Some (?i2\<lparr>prev_m := current_m ?i2, current_m := Values_init, windowId_m := 3\<rparr>,
            [LogLocked, LogEvent e1, LogLocked, LogEvent e2])"
    using pre post e1 e2 by (simp add: IntervalStat_add_def add_def)
  then show ?thesis by blast
qed

subsection \<open>Closing a window and destroying the object\<close>

lemma close_and_dtor_events:
  assumes "0 \<le>s count_f (current_m s)"
  shows "\<exists>evs.
    logLocked now (s, tr) =
      Some (s\<lparr>prev_m := current_m s, current_m := Values_init\<rparr>, tr @ LogLocked # evs) \<and>
    Stat_dtor now (s, tr) = Some (tr @ LogLocked # evs @ [UnregisterStat]) \<and>
    (if 0 <s count_f (current_m s)
     then \<exists>stats. getLocked (s\<lparr>prev_m := current_m s, current_m := Values_init\<rparr>) = Some stats \<and>
            evs = [LogEvent \<lparr>type_f = ''torch.monitor.Stat'', message_f = name_m s,
                     timestamp_f = now, metadata_f = build_metadata (name_m s) stats\<rparr>]
     else evs = [])"
proof (cases "count_f (current_m s) = 0")
  case True
  then have "logLocked now (s, tr) =
      Some (s\<lparr>prev_m := current_m s, current_m := Values_init\<rparr>, tr @ [LogLocked])"
    by (rule logLocked_empty)
  moreover from this have "Stat_dtor now (s, tr) = Some (tr @ [LogLocked, UnregisterStat])"
    by (simp add: Stat_dtor_def unregisterStat_def)
  ultimately show ?thesis using True by (intro exI [of _ "[]"]) simp
next
  case False
  then have "sint (count_f (current_m s)) \<noteq> 0"
    using signed_word_eqI [of "count_f (current_m s)" 0, where ?'a = int] by auto
  with assms have pos: "0 <s count_f (current_m s)"
    by (simp add: word_sle_eq word_sless_alt)
  from assms have "count_f (current_m s) \<noteq> - 1"
    by (auto simp: word_sle_eq)
  from logLocked_nonempty [OF False this, of now tr] obtain stats where
    g: "getLocked (s\<lparr>prev_m := current_m s, current_m := Values_init\<rparr>) = Some stats" and
    l: "logLocked now (s, tr) =
      Some (s\<lparr>prev_m := current_m s, current_m := Values_init\<rparr>,
            tr @ [LogLocked,
                  LogEvent \<lparr>type_f = ''torch.monitor.Stat'', message_f = name_m s,
                            timestamp_f = now,
                            metadata_f = build_metadata (name_m s) stats\<rparr>])"
    by blast
  from l have "Stat_dtor now (s, tr) =
      Some (tr @ [LogLocked,
                  LogEvent \<lparr>type_f = ''torch.monitor.Stat'', message_f = name_m s,
                            timestamp_f = now,
                            metadata_f = build_metadata (name_m s) stats\<rparr>,
                  UnregisterStat])"
    by (simp add: Stat_dtor_def unregisterStat_def)
  with l g pos show ?thesis
    by (intro exI [of _ "[LogEvent \<lparr>type_f = ''torch.monitor.Stat'', message_f = name_m s,
                            timestamp_f = now,
                            metadata_f = build_metadata (name_m s) stats\<rparr>]"]) simp
qed

section \<open>The claims\<close>

text \<open>
  C1. On a \<open>FixedCountStat\<close> with threshold \<open>N \<ge> 1\<close> whose current window is
  empty, a run of exactly \<open>N\<close> calls of \<open>add\<close> enters \<open>logLocked\<close> exactly
  once and emits exactly one event. No proper prefix of the run closes the window, so the
  close happens in the \<open>N\<close>-th call; the closed window holds \<open>N\<close> observations,
  so it is the check after the fold that fires. Afterwards \<open>count()\<close> is 0.
\<close>
theorem C1_fixed_count_closes_at_Nth_add:
  assumes N: "1 \<le> sint (windowSize_m s)"
    and fresh: "count_f (current_m s) = 0"
    and len: "int (length xs) = sint (windowSize_m s)"
  shows "\<exists>s' e.
    FixedCountStat_adds xs (s, tr) = Some (s', tr @ [LogLocked, LogEvent e]) \<and>
    fst (count (s', tr @ [LogLocked, LogEvent e])) = 0 \<and>
    count_f (prev_m s') = windowSize_m s \<and>
    (\<forall>k < length xs. \<exists>s''. FixedCountStat_adds (take k xs) (s, tr) = Some (s'', tr) \<and>
        sint (fst (count (s'', tr))) = int k)"
proof -
  have open_run: "\<exists>s''. FixedCountStat_adds (take k xs) (s, tr) = Some (s'', tr) \<and>
      sint (count_f (current_m s'')) = int k \<and> windowSize_m s'' = windowSize_m s"
    if "k < length xs" for k
  proof -
    have "sint (count_f (current_m s)) + int (length (take k xs)) < sint (windowSize_m s)"
      using that len fresh by simp
    with fresh FixedCountStat_adds_open [of s "take k xs" tr] that show ?thesis
      by auto
  qed
  from N len have ne: "xs \<noteq> []" by auto
  then have split: "xs = take (length xs - 1) xs @ [last xs]"
    by (metis append_butlast_last_id butlast_conv_take)
  from ne obtain s1 where s1: "FixedCountStat_adds (take (length xs - 1) xs) (s, tr) = Some (s1, tr)"
      "sint (count_f (current_m s1)) = int (length xs - 1)" "windowSize_m s1 = windowSize_m s"
    using open_run [of "length xs - 1"] by auto
  let ?s2 = "s1\<lparr>current_m := accumulate (aggregations_m s1) (snd (last xs)) (current_m s1)\<rparr>"
  have c1: "sint (count_f (current_m s1)) + 1 = sint (windowSize_m s1)"
    using s1(2,3) len ne by (cases xs) simp_all
  have last_add: "FixedCountStat_add (fst (last xs)) (snd (last xs)) (s1, tr) =
      logLocked (snd (fst (last xs))) (?s2, tr)"
    using s1(2) c1 by (intro FixedCountStat_add_close) simp_all
  have "sint (count_f (current_m s1)) < 2 ^ 63 - 1"
    using c1 sint_range64 [of "windowSize_m s1"] by simp
  then have "sint (count_f (current_m ?s2)) = sint (windowSize_m s)"
    using c1 s1(3) by (simp add: count_accumulate sint_succ)
  then have c2: "count_f (current_m ?s2) = windowSize_m s"
    by (rule signed_word_eqI)
  have nz: "count_f (current_m ?s2) \<noteq> 0" "count_f (current_m ?s2) \<noteq> - 1"
    using c2 N by auto
  obtain stats where
    "logLocked (snd (fst (last xs))) (?s2, tr) =
      Some (?s2\<lparr>prev_m := current_m ?s2, current_m := Values_init\<rparr>,
            tr @ [LogLocked,
                  LogEvent \<lparr>type_f = ''torch.monitor.Stat'', message_f = name_m ?s2,
                            timestamp_f = snd (fst (last xs)),
                            metadata_f = build_metadata (name_m ?s2) stats\<rparr>])"
    using logLocked_nonempty [OF nz] by blast
  then have "FixedCountStat_adds (take (length xs - 1) xs @ [last xs]) (s, tr) =
      Some (?s2\<lparr>prev_m := current_m ?s2, current_m := Values_init\<rparr>,
            tr @ [LogLocked,
                  LogEvent \<lparr>type_f = ''torch.monitor.Stat'', message_f = name_m ?s2,
                            timestamp_f = snd (fst (last xs)),
                            metadata_f = build_metadata (name_m ?s2) stats\<rparr>])"
    using s1(1) last_add
    by (simp add: FixedCountStat_adds_def call_seq_append)
  with split have fin: "FixedCountStat_adds xs (s, tr) =
      Some (?s2\<lparr>prev_m := current_m ?s2, current_m := Values_init\<rparr>,
            tr @ [LogLocked,
                  LogEvent \<lparr>type_f = ''torch.monitor.Stat'', message_f = name_m ?s2,
                            timestamp_f = snd (fst (last xs)),
                            metadata_f = build_metadata (name_m ?s2) stats\<rparr>])"
    by simp
  have "\<forall>k < length xs. \<exists>s''. FixedCountStat_adds (take k xs) (s, tr) = Some (s'', tr) \<and>
        sint (fst (count (s'', tr))) = int k"
    using open_run by (auto simp: count_def)
  moreover have "fst (count (?s2\<lparr>prev_m := current_m ?s2, current_m := Values_init\<rparr>,
            tr @ [LogLocked,
                  LogEvent \<lparr>type_f = ''torch.monitor.Stat'', message_f = name_m ?s2,
                            timestamp_f = snd (fst (last xs)),
                            metadata_f = build_metadata (name_m ?s2) stats\<rparr>])) = 0"
    by (simp add: count_def Values_init_def)
  moreover have "count_f (prev_m (?s2\<lparr>prev_m := current_m ?s2, current_m := Values_init\<rparr>)) =
      windowSize_m s"
    using c2 by simp
  ultimately show ?thesis using fin by blast
qed

theorem C1_fixed_count_closes_at_Nth_add_witness:
  "1 \<le> sint (windowSize_m (fst (FixedCountStat_ctor ''x'' [SUM_agg] 2 []))) \<and>
   count_f (current_m (fst (FixedCountStat_ctor ''x'' [SUM_agg] 2 []))) = 0 \<and>
   int (length [((1 :: int, 2 :: int), 5 :: int64_t), ((3, 4), 7)]) =
     sint (windowSize_m (fst (FixedCountStat_ctor ''x'' [SUM_agg] 2 []))) \<and>
   (\<exists>s' e.
      FixedCountStat_adds [((1, 2), 5), ((3, 4), 7)]
        (fst (FixedCountStat_ctor ''x'' [SUM_agg] 2 []), [RegisterStat]) =
      Some (s', [RegisterStat] @ [LogLocked, LogEvent e]) \<and>
      fst (count (s', [RegisterStat] @ [LogLocked, LogEvent e])) = 0 \<and>
      count_f (prev_m s') = windowSize_m (fst (FixedCountStat_ctor ''x'' [SUM_agg] 2 [])) \<and>
      (\<exists>s''.
         FixedCountStat_adds (take 1 [((1, 2), 5), ((3, 4), 7)])
           (fst (FixedCountStat_ctor ''x'' [SUM_agg] 2 []), [RegisterStat]) =
         Some (s'', [RegisterStat]) \<and>
         sint (fst (count (s'', [RegisterStat]))) = 1))"
proof -
  have h: "1 \<le> sint (windowSize_m (fst (FixedCountStat_ctor ''x'' [SUM_agg] 2 [])))"
    "count_f (current_m (fst (FixedCountStat_ctor ''x'' [SUM_agg] 2 []))) = 0"
    "int (length [((1 :: int, 2 :: int), 5 :: int64_t), ((3, 4), 7)]) =
     sint (windowSize_m (fst (FixedCountStat_ctor ''x'' [SUM_agg] 2 [])))"
    by (simp_all add: FixedCountStat_ctor_def Values_init_def)
  from C1_fixed_count_closes_at_Nth_add [OF h, of "[RegisterStat]"] obtain s' e where
    r: "FixedCountStat_adds [((1, 2), 5), ((3, 4), 7)]
        (fst (FixedCountStat_ctor ''x'' [SUM_agg] 2 []), [RegisterStat]) =
      Some (s', [RegisterStat] @ [LogLocked, LogEvent e])"
      "fst (count (s', [RegisterStat] @ [LogLocked, LogEvent e])) = 0"
      "count_f (prev_m s') = windowSize_m (fst (FixedCountStat_ctor ''x'' [SUM_agg] 2 []))" and
    p: "\<forall>k < length [((1 :: int, 2 :: int), 5 :: int64_t), ((3, 4), 7)]. \<exists>s''.
         FixedCountStat_adds (take k [((1, 2), 5), ((3, 4), 7)])
           (fst (FixedCountStat_ctor ''x'' [SUM_agg] 2 []), [RegisterStat]) =
         Some (s'', [RegisterStat]) \<and>
         sint (fst (count (s'', [RegisterStat]))) = int k"
    by blast
  from p [rule_format, of 1] have "\<exists>s''.
         FixedCountStat_adds (take 1 [((1, 2), 5), ((3, 4), 7)])
           (fst (FixedCountStat_ctor ''x'' [SUM_agg] 2 []), [RegisterStat]) =
         Some (s'', [RegisterStat]) \<and>
         sint (fst (count (s'', [RegisterStat]))) = 1"
    by simp
  with h r show ?thesis by blast
qed

text \<open>
  C2 does not hold as stated: a fresh \<open>FixedCountStat\<close> that selects SUM answers
  \<open>get()\<close> with a mapping whose set of keys is SUM alone, not the empty set.
\<close>
theorem C2_fresh_get_not_empty_counterexample:
  "map_option (dom \<circ> fst) (get (FixedCountStat_ctor ''x'' [SUM_agg] 3 [])) = Some {SUM_agg}"
proof -
  have "prev_m (fst (FixedCountStat_ctor ''x'' [SUM_agg] 3 [])) = Values_init"
    by (simp add: FixedCountStat_ctor_def)
  from getLocked_Values_init [OF this] show ?thesis
    by (auto simp: get_def FixedCountStat_ctor_def test_merge dom_def)
qed

text \<open>
  C2, amended. On a freshly constructed \<open>Stat\<close> of either subclass, before any window
  has closed, \<open>get()\<close> returns the mapping that has exactly the selected kinds other
  than NONE as keys, each with the value 0, and leaves the state as it is.
\<close>
theorem C2_fresh_get_has_zero_entries:
  "get (FixedCountStat_ctor name aggs n tr) =
     Some (\<lambda>k. if k \<in> set aggs \<and> k \<noteq> NONE_agg then Some 0 else None,
           FixedCountStat_ctor name aggs n tr) \<and>
   get (IntervalStat_ctor name aggs w tr) =
     Some (\<lambda>k. if k \<in> set aggs \<and> k \<noteq> NONE_agg then Some 0 else None,
           IntervalStat_ctor name aggs w tr)"
proof
  have "prev_m (fst (FixedCountStat_ctor name aggs n tr)) = Values_init"
    by (simp add: FixedCountStat_ctor_def)
  from getLocked_Values_init [OF this]
  show "get (FixedCountStat_ctor name aggs n tr) =
     Some (\<lambda>k. if k \<in> set aggs \<and> k \<noteq> NONE_agg then Some 0 else None,
           FixedCountStat_ctor name aggs n tr)"
    by (simp add: get_def FixedCountStat_ctor_def test_merge)
next
  have "prev_m (fst (IntervalStat_ctor name aggs w tr)) = Values_init"
    by (simp add: IntervalStat_ctor_def)
  from getLocked_Values_init [OF this]
  show "get (IntervalStat_ctor name aggs w tr) =
     Some (\<lambda>k. if k \<in> set aggs \<and> k \<noteq> NONE_agg then Some 0 else None,
           IntervalStat_ctor name aggs w tr)"
    by (simp add: get_def IntervalStat_ctor_def test_merge)
qed

text \<open>
  C3. Where MEAN is selected, \<open>getLocked\<close> returns a mapping and does not trap. For a
  finalized window with count 0 the MEAN entry is 0, and the division is not reached
  (a division by zero would make the result \<open>None\<close>). For a count above 0 the MEAN
  entry is the quotient of sum by count in \<open>int64_t\<close>, truncated towards zero.
\<close>
theorem C3_mean_is_zero_or_truncated_quotient:
  assumes "test (aggregations_m s) MEAN_agg"
  shows "(count_f (prev_m s) = 0 \<longrightarrow>
            (\<exists>m. getLocked s = Some m \<and> m MEAN_agg = Some 0)) \<and>
         (0 <s count_f (prev_m s) \<longrightarrow>
            (\<exists>m q. getLocked s = Some m \<and> m MEAN_agg = Some q \<and>
               sint q = sgn (sint (sum_f (prev_m s))) *
                        (\<bar>sint (sum_f (prev_m s))\<bar> div sint (count_f (prev_m s)))))"
proof (intro conjI impI)
  assume z: "count_f (prev_m s) = 0"
  then obtain m where m: "getLocked s = Some m"
    using getLocked_total [of s] by auto
  from getLocked_lookup [OF m, of MEAN_agg] assms z have "m MEAN_agg = Some 0"
    by simp
  with m show "\<exists>m. getLocked s = Some m \<and> m MEAN_agg = Some 0" by blast
next
  assume "0 <s count_f (prev_m s)"
  then have pos: "0 < sint (count_f (prev_m s))"
    by (simp add: word_sless_alt)
  then have nz: "count_f (prev_m s) \<noteq> 0" "count_f (prev_m s) \<noteq> - 1"
    by auto
  obtain m where m: "getLocked s = Some m"
    using getLocked_total [OF nz(2)] by auto
  let ?q = "word_of_int (sint (sum_f (prev_m s)) sdiv sint (count_f (prev_m s))) :: int64_t"
  have "m MEAN_agg = Some ?q"
    using getLocked_lookup [OF m, of MEAN_agg] assms nz by (simp add: div_T_def)
  moreover have "sint ?q = sgn (sint (sum_f (prev_m s))) *
      (\<bar>sint (sum_f (prev_m s))\<bar> div sint (count_f (prev_m s)))"
  proof -
    have "sint ?q = sint (sum_f (prev_m s)) sdiv sint (count_f (prev_m s))"
      using pos by (rule sint_word_of_sdiv)
    also have "\<dots> = sgn (sint (sum_f (prev_m s))) *
        (\<bar>sint (sum_f (prev_m s))\<bar> div sint (count_f (prev_m s)))"
      using pos by (simp add: signed_divide_int_def)
    finally show ?thesis .
  qed
  ultimately show "\<exists>m q. getLocked s = Some m \<and> m MEAN_agg = Some q \<and>
      sint q = sgn (sint (sum_f (prev_m s))) *
               (\<bar>sint (sum_f (prev_m s))\<bar> div sint (count_f (prev_m s)))"
    using m by blast
qed

theorem C3_mean_is_zero_or_truncated_quotient_witness:
  "test (aggregations_m \<lparr>name_m = ''x'', aggregations_m = merge [MEAN_agg],
           current_m = Values_init,
           prev_m = \<lparr>value_f = 0, sum_f = - 7, min_f = 0, max_f = 0, count_f = 2\<rparr>\<rparr>) MEAN_agg \<and>
   0 <s count_f (prev_m \<lparr>name_m = ''x'', aggregations_m = merge [MEAN_agg],
           current_m = Values_init,
           prev_m = \<lparr>value_f = 0, sum_f = - 7, min_f = 0, max_f = 0, count_f = 2\<rparr>\<rparr>) \<and>
   (\<exists>m q. getLocked \<lparr>name_m = ''x'', aggregations_m = merge [MEAN_agg],
           current_m = Values_init,
           prev_m = \<lparr>value_f = 0, sum_f = - 7, min_f = 0, max_f = 0, count_f = 2\<rparr>\<rparr> = Some m \<and>
      m MEAN_agg = Some q \<and> sint q = - 3)"
  using C3_mean_is_zero_or_truncated_quotient
    [of "\<lparr>name_m = ''x'', aggregations_m = merge [MEAN_agg],
           current_m = Values_init,
           prev_m = \<lparr>value_f = 0, sum_f = - 7, min_f = 0, max_f = 0, count_f = 2\<rparr>\<rparr>"]
  by (simp add: test_merge word_sless_alt)

text \<open>
  C4. When MAX and MIN are selected and the current window is empty, one \<open>add\<close> of any
  value \<open>v\<close> leaves the window that holds \<open>v\<close> with minimum and maximum \<open>v\<close>: the
  fold itself sets both extrema to \<open>v\<close>, and after the whole \<open>add\<close> of either subclass
  the window is the current one, or the previous one where the second check closed it.
\<close>
theorem C4_first_observation_seeds_extrema:
  "(test aggs MAX_agg \<and> test aggs MIN_agg \<and> count_f c = 0 \<longrightarrow>
      min_f (accumulate aggs v c) = v \<and> max_f (accumulate aggs v c) = v) \<and>
   (test (aggregations_m s) MAX_agg \<and> test (aggregations_m s) MIN_agg \<and>
    count_f (current_m s) = 0 \<longrightarrow>
      (\<exists>s' tr'. FixedCountStat_add clk v (s, tr) = Some (s', tr') \<and>
         min_f (if windowSize_m s \<le>s 1 then prev_m s' else current_m s') = v \<and>
         max_f (if windowSize_m s \<le>s 1 then prev_m s' else current_m s') = v)) \<and>
   (test (aggregations_m i) MAX_agg \<and> test (aggregations_m i) MIN_agg \<and>
    count_f (current_m i) = 0 \<and>
    currentWindowId t1 i = Some w1 \<and> currentWindowId t2 i = Some w2 \<longrightarrow>
      (\<exists>i' tr'. IntervalStat_add ((t1, n1), (t2, n2)) v (i, tr) = Some (i', tr') \<and>
         min_f (if w2 \<noteq> w1 then prev_m i' else current_m i') = v \<and>
         max_f (if w2 \<noteq> w1 then prev_m i' else current_m i') = v))"
  using accumulate_first [of aggs c v] FixedCountStat_add_first [of s clk v tr]
    IntervalStat_add_first [of i t1 w1 t2 w2 n1 n2 v tr]
  by blast

theorem C4_first_observation_seeds_extrema_witness:
  "(test (merge [MAX_agg, MIN_agg]) MAX_agg \<and> test (merge [MAX_agg, MIN_agg]) MIN_agg \<and>
    count_f Values_init = 0) \<and>
   min_f (accumulate (merge [MAX_agg, MIN_agg]) (- 5) Values_init) = - 5 \<and>
   max_f (accumulate (merge [MAX_agg, MIN_agg]) (- 5) Values_init) = - 5 \<and>
   (test (aggregations_m (fst (FixedCountStat_ctor ''x'' [MAX_agg, MIN_agg] 3 []))) MAX_agg \<and>
    test (aggregations_m (fst (FixedCountStat_ctor ''x'' [MAX_agg, MIN_agg] 3 []))) MIN_agg \<and>
    count_f (current_m (fst (FixedCountStat_ctor ''x'' [MAX_agg, MIN_agg] 3 []))) = 0) \<and>
   (\<exists>s' tr'. FixedCountStat_add (1, 2) (- 5)
        (fst (FixedCountStat_ctor ''x'' [MAX_agg, MIN_agg] 3 []), []) = Some (s', tr') \<and>
      min_f (current_m s') = - 5 \<and> max_f (current_m s') = - 5) \<and>
   (test (aggregations_m (fst (IntervalStat_ctor ''x'' [MAX_agg, MIN_agg] 60000 []))) MAX_agg \<and>
    test (aggregations_m (fst (IntervalStat_ctor ''x'' [MAX_agg, MIN_agg] 60000 []))) MIN_agg \<and>
    count_f (current_m (fst (IntervalStat_ctor ''x'' [MAX_agg, MIN_agg] 60000 []))) = 0 \<and>
    currentWindowId 61000000000 (fst (IntervalStat_ctor ''x'' [MAX_agg, MIN_agg] 60000 [])) =
      Some 1 \<and>
    currentWindowId 200000000000 (fst (IntervalStat_ctor ''x'' [MAX_agg, MIN_agg] 60000 [])) =
      Some 3) \<and>
   (\<exists>i' tr'. IntervalStat_add ((61000000000, 1), (200000000000, 2)) (- 5)
        (fst (IntervalStat_ctor ''x'' [MAX_agg, MIN_agg] 60000 []), []) = Some (i', tr') \<and>
      min_f (prev_m i') = - 5 \<and> max_f (prev_m i') = - 5)"
proof -
  have a: "test (merge [MAX_agg, MIN_agg]) MAX_agg \<and> test (merge [MAX_agg, MIN_agg]) MIN_agg \<and>
    count_f Values_init = 0"
    by (simp add: test_merge Values_init_def)
  have f: "test (aggregations_m (fst (FixedCountStat_ctor ''x'' [MAX_agg, MIN_agg] 3 []))) MAX_agg \<and>
    test (aggregations_m (fst (FixedCountStat_ctor ''x'' [MAX_agg, MIN_agg] 3 []))) MIN_agg \<and>
    count_f (current_m (fst (FixedCountStat_ctor ''x'' [MAX_agg, MIN_agg] 3 []))) = 0"
    by (simp add: test_merge Values_init_def FixedCountStat_ctor_def)
  have i: "test (aggregations_m (fst (IntervalStat_ctor ''x'' [MAX_agg, MIN_agg] 60000 []))) MAX_agg \<and>
    test (aggregations_m (fst (IntervalStat_ctor ''x'' [MAX_agg, MIN_agg] 60000 []))) MIN_agg \<and>
    count_f (current_m (fst (IntervalStat_ctor ''x'' [MAX_agg, MIN_agg] 60000 []))) = 0 \<and>
    currentWindowId 61000000000 (fst (IntervalStat_ctor ''x'' [MAX_agg, MIN_agg] 60000 [])) =
      Some 1 \<and>
    currentWindowId 200000000000 (fst (IntervalStat_ctor ''x'' [MAX_agg, MIN_agg] 60000 [])) =
      Some 3"
    using interval_ctor_windowId by (simp add: test_merge Values_init_def IntervalStat_ctor_def)
  have w: "\<not> windowSize_m (fst (FixedCountStat_ctor ''x'' [MAX_agg, MIN_agg] 3 [])) \<le>s 1"
    by (simp add: FixedCountStat_ctor_def word_sle_eq)
  note c = C4_first_observation_seeds_extrema
    [of "merge [MAX_agg, MIN_agg]" Values_init "- 5"
        "fst (FixedCountStat_ctor ''x'' [MAX_agg, MIN_agg] 3 [])" "(1, 2)" "[]"
        "fst (IntervalStat_ctor ''x'' [MAX_agg, MIN_agg] 60000 [])"
        61000000000 1 200000000000 3 1 2]
  from c a have 1: "min_f (accumulate (merge [MAX_agg, MIN_agg]) (- 5) Values_init) = - 5 \<and>
   max_f (accumulate (merge [MAX_agg, MIN_agg]) (- 5) Values_init) = - 5" by blast
  from c f w have 2: "\<exists>s' tr'. FixedCountStat_add (1, 2) (- 5)
        (fst (FixedCountStat_ctor ''x'' [MAX_agg, MIN_agg] 3 []), []) = Some (s', tr') \<and>
      min_f (current_m s') = - 5 \<and> max_f (current_m s') = - 5" by simp
  from c i have 3: "\<exists>i' tr'. IntervalStat_add ((61000000000, 1), (200000000000, 2)) (- 5)
        (fst (IntervalStat_ctor ''x'' [MAX_agg, MIN_agg] 60000 []), []) = Some (i', tr') \<and>
      min_f (prev_m i') = - 5 \<and> max_f (prev_m i') = - 5" by simp
  from a f i 1 2 3 show ?thesis by blast
qed

text \<open>
  C5 does not hold as stated: an \<open>IntervalStat\<close> in bucket 1 with two observations
  receives an \<open>add\<close> whose first check reads the clock in the last nanosecond of
  bucket 2 and whose second check reads it in the first nanosecond of bucket 3. The call
  enters \<open>logLocked\<close> twice, once before and once after the fold.
\<close>
theorem C5_two_closes_in_one_add_counterexample:
  "map_option (length \<circ> filter ((=) LogLocked) \<circ> snd)
     (IntervalStat_add ((179999999999, 1), (180000000000, 2)) 5 (interval_example, [])) = Some 2"
proof -
  from interval_example_race obtain s e1 e2 where
    "IntervalStat_add ((179999999999, 1), (180000000000, 2)) 5 (interval_example, []) =
     Some (s, [LogLocked, LogEvent e1, LogLocked, LogEvent e2])"
    by blast
  then show ?thesis by simp
qed

text \<open>
  C5, amended. Take one \<open>add\<close> on an \<open>IntervalStat\<close> whose two checks compute the
  same bucket id \<open>w\<close>. If \<open>w\<close> is the id stored by the previous call, the \<open>add\<close> only folds the
  value: the call log does not grow. If \<open>w\<close> differs from the stored id, by whatever
  distance, the call log grows by exactly one entry into \<open>logLocked\<close>, followed by one
  event when the closed window was not empty and by nothing otherwise; the window that
  opens holds just the new observation. Every \<open>add\<close> that returns stores the id its
  second check computed, so the stored id is the id of the previous call.
\<close>
theorem C5_interval_closes_once_per_bucket_change:
  "(currentWindowId t1 s = Some (windowId_m s) \<and> currentWindowId t2 s = Some (windowId_m s) \<longrightarrow>
      IntervalStat_add ((t1, n1), (t2, n2)) v (s, tr) =
        Some (s\<lparr>current_m := accumulate (aggregations_m s) v (current_m s)\<rparr>, tr)) \<and>
   (currentWindowId t1 s = Some w \<and> currentWindowId t2 s = Some w \<and> w \<noteq> windowId_m s \<and>
    0 \<le>s count_f (current_m s) \<longrightarrow>
      (\<exists>evs. IntervalStat_add ((t1, n1), (t2, n2)) v (s, tr) =
           Some (s\<lparr>prev_m := current_m s,
                   current_m := accumulate (aggregations_m s) v Values_init,
                   windowId_m := w\<rparr>, tr @ LogLocked # evs) \<and>
         (if count_f (current_m s) = 0 then evs = [] else \<exists>e. evs = [LogEvent e]))) \<and>
   (IntervalStat_add ((t1, n1), (t2, n2)) v (s, tr) = Some (s', tr') \<and>
    currentWindowId t2 s = Some w2 \<longrightarrow>
      windowId_m s' = w2 \<and> IntervalStat.windowSize_m s' = IntervalStat.windowSize_m s)"
  using IntervalStat_add_same_bucket [of t1 s t2 n1 n2 v tr]
    IntervalStat_add_new_bucket [of t1 s w t2 n1 n2 v tr]
    IntervalStat_add_windowId [of t1 n1 t2 n2 v s tr s' tr' w2]
  by blast

theorem C5_interval_closes_once_per_bucket_change_witness:
  "(currentWindowId 61000000000 interval_example = Some (windowId_m interval_example) \<and>
    currentWindowId 62000000000 interval_example = Some (windowId_m interval_example)) \<and>
   IntervalStat_add ((61000000000, 1), (62000000000, 2)) 5 (interval_example, []) =
     Some (interval_example\<lparr>current_m :=
             accumulate (aggregations_m interval_example) 5 (current_m interval_example)\<rparr>, []) \<and>
   (currentWindowId 200000000000 interval_example = Some 3 \<and>
    currentWindowId 201000000000 interval_example = Some 3 \<and>
    3 \<noteq> windowId_m interval_example \<and> 0 \<le>s count_f (current_m interval_example)) \<and>
   (\<exists>s' e. IntervalStat_add ((200000000000, 1), (201000000000, 2)) 5 (interval_example, []) =
       Some (s', [LogLocked, LogEvent e]) \<and>
     windowId_m s' = 3 \<and> count_f (prev_m s') = 2)"
proof -
  have same: "currentWindowId 61000000000 interval_example = Some (windowId_m interval_example) \<and>
    currentWindowId 62000000000 interval_example = Some (windowId_m interval_example)"
    using interval_example_windowId by (simp add: interval_example_def)
  have new: "currentWindowId 200000000000 interval_example = Some 3 \<and>
    currentWindowId 201000000000 interval_example = Some 3 \<and>
    3 \<noteq> windowId_m interval_example \<and> 0 \<le>s count_f (current_m interval_example)"
    using interval_example_windowId by (simp add: interval_example_def word_sle_eq)
  have nz: "count_f (current_m interval_example) \<noteq> 0"
    by (simp add: interval_example_def)
  from same C5_interval_closes_once_per_bucket_change
    [of 61000000000 interval_example 62000000000 1 2 5 "[]"]
  have 1: "IntervalStat_add ((61000000000, 1), (62000000000, 2)) 5 (interval_example, []) =
     Some (interval_example\<lparr>current_m :=
             accumulate (aggregations_m interval_example) 5 (current_m interval_example)\<rparr>, [])"
    by blast
  from new C5_interval_closes_once_per_bucket_change
    [of 200000000000 interval_example 201000000000 1 2 5 "[]" 3]
  obtain evs where
    a: "IntervalStat_add ((200000000000, 1), (201000000000, 2)) 5 (interval_example, []) =
       Some (interval_example\<lparr>prev_m := current_m interval_example,
               current_m := accumulate (aggregations_m interval_example) 5 Values_init,
               windowId_m := 3\<rparr>, [] @ LogLocked # evs)"
    and b: "if count_f (current_m interval_example) = 0 then evs = []
            else \<exists>e. evs = [LogEvent e]"
    by blast
  from b nz obtain e where "evs = [LogEvent e]"
    by (simp split: if_splits) blast
  with a have 2: "IntervalStat_add ((200000000000, 1), (201000000000, 2)) 5 (interval_example, []) =
       Some (interval_example\<lparr>prev_m := current_m interval_example,
               current_m := accumulate (aggregations_m interval_example) 5 Values_init,
               windowId_m := 3\<rparr>, [LogLocked, LogEvent e])"
    by simp
  have "count_f (prev_m (interval_example\<lparr>prev_m := current_m interval_example,
               current_m := accumulate (aggregations_m interval_example) 5 Values_init,
               windowId_m := 3\<rparr>)) = 2"
    by (simp add: interval_example_def)
  with 2 have 3: "\<exists>s' e. IntervalStat_add ((200000000000, 1), (201000000000, 2)) 5 (interval_example, []) =
       Some (s', [LogLocked, LogEvent e]) \<and>
     windowId_m s' = 3 \<and> count_f (prev_m s') = 2"
    by simp
  from same new 1 3 show ?thesis by blast
qed

text \<open>
  C6. For a current window with a count that is not negative, a window close, and the
  destructor, which closes the window and then unregisters, emit exactly one event when
  the count is above 0 and no event when the count is 0. In the destructor the event
  comes before the call of \<open>unregisterStat\<close>. The count is not negative in any state
  that fewer than \<open>2^63\<close> calls of \<open>add\<close> reach from a constructor.
\<close>
theorem C6_event_iff_window_not_empty:
  "(0 \<le>s count_f (current_m s) \<longrightarrow>
      (\<exists>evs.
         logLocked now (s, tr) =
           Some (s\<lparr>prev_m := current_m s, current_m := Values_init\<rparr>, tr @ LogLocked # evs) \<and>
         Stat_dtor now (s, tr) = Some (tr @ LogLocked # evs @ [UnregisterStat]) \<and>
         (if 0 <s count_f (current_m s)
          then \<exists>stats.
                 getLocked (s\<lparr>prev_m := current_m s, current_m := Values_init\<rparr>) = Some stats \<and>
                 evs = [LogEvent \<lparr>type_f = ''torch.monitor.Stat'', message_f = name_m s,
                          timestamp_f = now, metadata_f = build_metadata (name_m s) stats\<rparr>]
          else evs = []))) \<and>
   (FixedCountStat_adds xs (FixedCountStat_ctor name aggs n tr0) = Some (f, tr1) \<and>
    length xs < 2 ^ 63 \<longrightarrow> 0 \<le>s count_f (current_m f)) \<and>
   (IntervalStat_adds ys (IntervalStat_ctor name aggs w tr0) = Some (i, tr2) \<and>
    length ys < 2 ^ 63 \<longrightarrow> 0 \<le>s count_f (current_m i))"
  using close_and_dtor_events [of s now tr]
    FixedCountStat_reachable_window [of xs name aggs n tr0 f tr1]
    IntervalStat_reachable_window [of ys name aggs w tr0 i tr2]
  by (simp add: word_sle_eq)

theorem C6_event_iff_window_not_empty_witness:
  "0 \<le>s count_f (current_m interval_example) \<and>
   (\<exists>e. logLocked 7 (interval_example, [RegisterStat]) =
      Some (interval_example\<lparr>prev_m := current_m interval_example, current_m := Values_init\<rparr>,
            [RegisterStat, LogLocked, LogEvent e]) \<and>
    Stat_dtor 7 (interval_example, [RegisterStat]) =
      Some [RegisterStat, LogLocked, LogEvent e, UnregisterStat]) \<and>
   (\<exists>tr. FixedCountStat_adds [((1, 2), 10), ((3, 4), 20), ((5, 6), 30)]
       (FixedCountStat_ctor ''latency'' [SUM_agg, COUNT_agg, MEAN_agg] 3 []) =
       Some (latency_closed, tr)) \<and>
   length [((1 :: int, 2 :: int), 10 :: int64_t), ((3, 4), 20), ((5, 6), 30)] < 2 ^ 63 \<and>
   0 \<le>s count_f (current_m latency_closed) \<and>
   (\<exists>i tr. IntervalStat_adds [(((61000000000, 1), (200000000000, 2)), 5)]
       (IntervalStat_ctor ''x'' [SUM_agg] 60000 []) = Some (i, tr) \<and>
      0 \<le>s count_f (current_m i)) \<and>
   length [(((61000000000 :: int64_t, 1 :: int), (200000000000 :: int64_t, 2 :: int)),
            5 :: int64_t)] < 2 ^ 63"
proof -
  note c = C6_event_iff_window_not_empty
  have h: "0 \<le>s count_f (current_m interval_example)"
    by (simp add: interval_example_def word_sle_eq)
  have p: "0 <s count_f (current_m interval_example)"
    by (simp add: interval_example_def word_sless_alt)
  from c [where s = interval_example and now = 7 and tr = "[RegisterStat]",
          THEN conjunct1, THEN mp, OF h]
  obtain evs where
    l: "logLocked 7 (interval_example, [RegisterStat]) =
      Some (interval_example\<lparr>prev_m := current_m interval_example, current_m := Values_init\<rparr>,
            [RegisterStat] @ LogLocked # evs)" and
    d: "Stat_dtor 7 (interval_example, [RegisterStat]) =
      Some ([RegisterStat] @ LogLocked # evs @ [UnregisterStat])" and
    e: "if 0 <s count_f (current_m interval_example)
     then \<exists>stats. getLocked (interval_example\<lparr>prev_m := current_m interval_example,
                                 current_m := Values_init\<rparr>) = Some stats \<and>
            evs = [LogEvent \<lparr>type_f = ''torch.monitor.Stat'', message_f = name_m interval_example,
                     timestamp_f = 7,
                     metadata_f = build_metadata (name_m interval_example) stats\<rparr>]
     else evs = []"
    by blast
  from e p obtain ev where "evs = [LogEvent ev]"
    by (simp split: if_splits) blast
  with l d have 1: "\<exists>e. logLocked 7 (interval_example, [RegisterStat]) =
      Some (interval_example\<lparr>prev_m := current_m interval_example, current_m := Values_init\<rparr>,
            [RegisterStat, LogLocked, LogEvent e]) \<and>
    Stat_dtor 7 (interval_example, [RegisterStat]) =
      Some [RegisterStat, LogLocked, LogEvent e, UnregisterStat]"
    by simp
  have r: "FixedCountStat_adds [((1, 2), 10), ((3, 4), 20), ((5, 6), 30)]
       (FixedCountStat_ctor ''latency'' [SUM_agg, COUNT_agg, MEAN_agg] 3 []) =
       Some (latency_closed, [RegisterStat, LogLocked,
          LogEvent \<lparr>type_f = ''torch.monitor.Stat'', message_f = ''latency'', timestamp_f = 6,
                    metadata_f = [''latency.sum'' \<mapsto> 60, ''latency.count'' \<mapsto> 3,
                                  ''latency.mean'' \<mapsto> 20]\<rparr>])"
    using latency_run [of 1 2 3 4 5 6] by (simp add: latency_closed_def)
  have len: "length [((1 :: int, 2 :: int), 10 :: int64_t), ((3, 4), 20), ((5, 6), 30)] < 2 ^ 63"
    "length [(((61000000000 :: int64_t, 1 :: int), (200000000000 :: int64_t, 2 :: int)),
            5 :: int64_t)] < 2 ^ 63"
    by simp_all
  from c [THEN conjunct2, THEN conjunct1, THEN mp, OF conjI [OF r len(1)]]
  have 2: "0 \<le>s count_f (current_m latency_closed)" .
  from interval_race_run obtain i e where
    ir: "IntervalStat_adds [(((61000000000, 1), (200000000000, 2)), 5)]
       (IntervalStat_ctor ''x'' [SUM_agg] 60000 []) =
       Some (i, [RegisterStat, LogLocked, LogLocked, LogEvent e])"
    by blast
  from c [THEN conjunct2, THEN conjunct2, THEN mp, OF conjI [OF ir len(2)]]
  have "0 \<le>s count_f (current_m i)" .
  with ir have 3: "\<exists>i tr. IntervalStat_adds [(((61000000000, 1), (200000000000, 2)), 5)]
       (IntervalStat_ctor ''x'' [SUM_agg] 60000 []) = Some (i, tr) \<and>
      0 \<le>s count_f (current_m i)"
    by blast
  from h 1 r len 2 3 show ?thesis by blast
qed

text \<open>
  C7. A \<open>FixedCountStat\<close> named latency with the kinds SUM, COUNT and MEAN and the
  threshold 3, after \<open>add(10)\<close>, \<open>add(20)\<close>, \<open>add(30)\<close>: the call log holds the
  registration, one window close and one event. The event has the type
  \<open>torch.monitor.Stat\<close>, the message latency and exactly the metadata
  \<open>latency.sum\<close> 60, \<open>latency.count\<close> 3 and \<open>latency.mean\<close> 20. From then on, and
  after any further calls of \<open>add\<close> fewer than the threshold, which close no window,
  \<open>get()\<close> returns exactly SUM 60, COUNT 3, MEAN 20.
\<close>
theorem C7_latency_end_to_end:
  "\<exists>s.
     FixedCountStat_adds [((a1, a2), 10), ((b1, b2), 20), ((c1, c2), 30)]
       (FixedCountStat_ctor ''latency'' [SUM_agg, COUNT_agg, MEAN_agg] 3 []) =
     Some (s, [RegisterStat, LogLocked,
               LogEvent \<lparr>type_f = ''torch.monitor.Stat'', message_f = ''latency'',
                         timestamp_f = c2,
                         metadata_f = [''latency.sum'' \<mapsto> 60, ''latency.count'' \<mapsto> 3,
                                       ''latency.mean'' \<mapsto> 20]\<rparr>]) \<and>
     (\<forall>ys tr. length ys < 3 \<longrightarrow>
        (\<exists>s'. FixedCountStat_adds ys (s, tr) = Some (s', tr) \<and>
           get (s', tr) =
             Some ([SUM_agg \<mapsto> 60, COUNT_agg \<mapsto> 3, MEAN_agg \<mapsto> 20], (s', tr))))"
proof -
  let ?s = "\<lparr>name_m = ''latency'', aggregations_m = merge [SUM_agg, COUNT_agg, MEAN_agg],
          current_m = Values_init,
          prev_m = \<lparr>value_f = 0, sum_f = 60, min_f = 0, max_f = 0, count_f = 3\<rparr>,
          windowSize_m = 3 :: int64_t\<rparr>"
  have "\<exists>s'. FixedCountStat_adds ys (?s, tr) = Some (s', tr) \<and>
           get (s', tr) =
             Some ([SUM_agg \<mapsto> 60, COUNT_agg \<mapsto> 3, MEAN_agg \<mapsto> 20], (s', tr))"
    if "length ys < 3" for ys tr
  proof -
    have "0 \<le> sint (count_f (current_m ?s))"
      by (simp add: Values_init_def)
    moreover have "sint (count_f (current_m ?s)) + int (length ys) < sint (windowSize_m ?s)"
      using that by (simp add: Values_init_def)
    ultimately obtain s' where s': "FixedCountStat_adds ys (?s, tr) = Some (s', tr)"
      "prev_m s' = prev_m ?s" "aggregations_m s' = aggregations_m ?s"
      using FixedCountStat_adds_open [of ?s ys tr] by blast
    have "getLocked s' = Some [SUM_agg \<mapsto> 60, COUNT_agg \<mapsto> 3, MEAN_agg \<mapsto> 20]"
      using s'(2,3) by (intro latency_getLocked) simp_all
    with s'(1) show ?thesis by (simp add: get_def)
  qed
  with latency_run [of a1 a2 b1 b2 c1 c2] show ?thesis by blast
qed

theorem C7_latency_end_to_end_witness:
  "\<exists>s.
     FixedCountStat_adds [((1, 2), 10), ((3, 4), 20), ((5, 6), 30)]
       (FixedCountStat_ctor ''latency'' [SUM_agg, COUNT_agg, MEAN_agg] 3 []) =
     Some (s, [RegisterStat, LogLocked,
               LogEvent \<lparr>type_f = ''torch.monitor.Stat'', message_f = ''latency'',
                         timestamp_f = 6,
                         metadata_f = [''latency.sum'' \<mapsto> 60, ''latency.count'' \<mapsto> 3,
                                       ''latency.mean'' \<mapsto> 20]\<rparr>]) \<and>
     length [((7 :: int, 8 :: int), 40 :: int64_t)] < 3 \<and>
     (\<exists>s'. FixedCountStat_adds [((7, 8), 40)] (s, []) = Some (s', []) \<and>
        get (s', []) =
          Some ([SUM_agg \<mapsto> 60, COUNT_agg \<mapsto> 3, MEAN_agg \<mapsto> 20], (s', [])))"
proof -
  have l: "length [((7 :: int, 8 :: int), 40 :: int64_t)] < 3" by simp
  from C7_latency_end_to_end [of 1 2 3 4 5 6] obtain s where
    r: "FixedCountStat_adds [((1, 2), 10), ((3, 4), 20), ((5, 6), 30)]
       (FixedCountStat_ctor ''latency'' [SUM_agg, COUNT_agg, MEAN_agg] 3 []) =
     Some (s, [RegisterStat, LogLocked,
               LogEvent \<lparr>type_f = ''torch.monitor.Stat'', message_f = ''latency'',
                         timestamp_f = 6,
                         metadata_f = [''latency.sum'' \<mapsto> 60, ''latency.count'' \<mapsto> 3,
                                       ''latency.mean'' \<mapsto> 20]\<rparr>])" and
    g: "\<forall>ys tr. length ys < 3 \<longrightarrow>
        (\<exists>s'. FixedCountStat_adds ys (s, tr) = Some (s', tr) \<and>
           get (s', tr) =
             Some ([SUM_agg \<mapsto> 60, COUNT_agg \<mapsto> 3, MEAN_agg \<mapsto> 20], (s', tr)))"
    by blast
  from g l have "\<exists>s'. FixedCountStat_adds [((7, 8), 40)] (s, []) = Some (s', []) \<and>
        get (s', []) =
          Some ([SUM_agg \<mapsto> 60, COUNT_agg \<mapsto> 3, MEAN_agg \<mapsto> 20], (s', []))"
    by blast
  with r l show ?thesis by blast
qed

text \<open>
  C8. A run of calls of \<open>add\<close> that stays below the threshold of a
  \<open>FixedCountStat\<close>, or whose clock readings all lie in the stored bucket of an
  \<open>IntervalStat\<close>, returns with the call log as it was: no window is closed. Whenever a
  run on either subclass returns with the call log as it was, \<open>count()\<close> afterwards is
  the count before plus the number of calls; starting from an empty window and for fewer
  than \<open>2^63\<close> calls it is exactly the number of calls. The fold adds 1 to the count
  whatever the selected kinds are, and \<open>count()\<close> leaves the state as it is.
\<close>
theorem C8_count_is_number_of_adds:
  "(0 \<le> sint (count_f (current_m s)) \<and>
    sint (count_f (current_m s)) + int (length xs) < sint (windowSize_m s) \<longrightarrow>
      (\<exists>s1. FixedCountStat_adds xs (s, tr) = Some (s1, tr))) \<and>
   ((\<forall>y \<in> set ys.
       currentWindowId (fst (fst (fst y))) i = Some (windowId_m i) \<and>
       currentWindowId (fst (snd (fst y))) i = Some (windowId_m i)) \<longrightarrow>
      (\<exists>i1. IntervalStat_adds ys (i, tr) = Some (i1, tr))) \<and>
   (FixedCountStat_adds xs (s, tr) = Some (s', tr) \<longrightarrow>
      fst (count (s', tr)) = count_f (current_m s) + of_nat (length xs) \<and>
      (count_f (current_m s) = 0 \<and> length xs < 2 ^ 63 \<longrightarrow>
         sint (fst (count (s', tr))) = int (length xs))) \<and>
   (IntervalStat_adds ys (i, tr) = Some (i', tr) \<longrightarrow>
      fst (count (i', tr)) = count_f (current_m i) + of_nat (length ys) \<and>
      (count_f (current_m i) = 0 \<and> length ys < 2 ^ 63 \<longrightarrow>
         sint (fst (count (i', tr))) = int (length ys))) \<and>
   count_f (accumulate aggs v c) = count_f c + 1 \<and>
   snd (count st) = st"
proof (intro conjI impI)
  show "\<exists>s1. FixedCountStat_adds xs (s, tr) = Some (s1, tr)"
    if "0 \<le> sint (count_f (current_m s)) \<and>
        sint (count_f (current_m s)) + int (length xs) < sint (windowSize_m s)"
    using that FixedCountStat_adds_open [of s xs tr] by blast
  show "\<exists>i1. IntervalStat_adds ys (i, tr) = Some (i1, tr)"
    if "\<forall>y \<in> set ys.
       currentWindowId (fst (fst (fst y))) i = Some (windowId_m i) \<and>
       currentWindowId (fst (snd (fst y))) i = Some (windowId_m i)"
    using IntervalStat_adds_same_bucket [OF that, of tr] by blast
next
  assume run: "FixedCountStat_adds xs (s, tr) = Some (s', tr)"
  have "count_f (current_m s') = count_f (current_m s) + of_nat (length xs)"
    using run unfolding FixedCountStat_adds_def
    by (rule call_seq_count [rotated]) (rule FixedCountStat_add_log)
  then show "fst (count (s', tr)) = count_f (current_m s) + of_nat (length xs)"
    by (simp add: count_def)
  then show "sint (fst (count (s', tr))) = int (length xs)"
    if "count_f (current_m s) = 0 \<and> length xs < 2 ^ 63"
    using that by (simp add: sint_of_nat_small)
next
  assume run: "IntervalStat_adds ys (i, tr) = Some (i', tr)"
  have "count_f (current_m i') = count_f (current_m i) + of_nat (length ys)"
    using run unfolding IntervalStat_adds_def
    by (rule call_seq_count [rotated]) (rule IntervalStat_add_log)
  then show "fst (count (i', tr)) = count_f (current_m i) + of_nat (length ys)"
    by (simp add: count_def)
  then show "sint (fst (count (i', tr))) = int (length ys)"
    if "count_f (current_m i) = 0 \<and> length ys < 2 ^ 63"
    using that by (simp add: sint_of_nat_small)
next
  show "count_f (accumulate aggs v c) = count_f c + 1"
    by (rule count_accumulate)
  show "snd (count st) = st"
    by (simp add: count_def)
qed

theorem C8_count_is_number_of_adds_witness:
  "(0 \<le> sint (count_f (current_m (fst (FixedCountStat_ctor ''x'' [SUM_agg] 3 [])))) \<and>
    sint (count_f (current_m (fst (FixedCountStat_ctor ''x'' [SUM_agg] 3 [])))) +
      int (length [((1 :: int, 2 :: int), 5 :: int64_t), ((3, 4), 7)]) <
    sint (windowSize_m (fst (FixedCountStat_ctor ''x'' [SUM_agg] 3 []))) \<and>
    count_f (current_m (fst (FixedCountStat_ctor ''x'' [SUM_agg] 3 []))) = 0 \<and>
    length [((1 :: int, 2 :: int), 5 :: int64_t), ((3, 4), 7)] < 2 ^ 63) \<and>
   (\<exists>s'. FixedCountStat_adds [((1, 2), 5), ((3, 4), 7)]
          (fst (FixedCountStat_ctor ''x'' [SUM_agg] 3 []), []) = Some (s', []) \<and>
      fst (count (s', [])) = 2 \<and> sint (fst (count (s', []))) = 2) \<and>
   (currentWindowId 61000000000 (interval_example\<lparr>current_m := Values_init\<rparr>) =
      Some (windowId_m (interval_example\<lparr>current_m := Values_init\<rparr>)) \<and>
    currentWindowId 62000000000 (interval_example\<lparr>current_m := Values_init\<rparr>) =
      Some (windowId_m (interval_example\<lparr>current_m := Values_init\<rparr>)) \<and>
    count_f (current_m (interval_example\<lparr>current_m := Values_init\<rparr>)) = 0 \<and>
    length [(((61000000000 :: int64_t, 1 :: int), (62000000000 :: int64_t, 2 :: int)),
             5 :: int64_t)] < 2 ^ 63) \<and>
   (\<exists>i'. IntervalStat_adds [(((61000000000, 1), (62000000000, 2)), 5)]
          (interval_example\<lparr>current_m := Values_init\<rparr>, []) = Some (i', []) \<and>
      fst (count (i', [])) = 1 \<and> sint (fst (count (i', []))) = 1)"
proof -
  let ?S = "fst (FixedCountStat_ctor ''x'' [SUM_agg] 3 [])"
  let ?xs = "[((1 :: int, 2 :: int), 5 :: int64_t), ((3, 4), 7)]"
  let ?I = "interval_example\<lparr>current_m := Values_init\<rparr>"
  let ?ys = "[(((61000000000 :: int64_t, 1 :: int), (62000000000 :: int64_t, 2 :: int)),
               5 :: int64_t)]"
  note c = C8_count_is_number_of_adds
  have S0: "0 \<le> sint (count_f (current_m ?S)) \<and>
      sint (count_f (current_m ?S)) + int (length ?xs) < sint (windowSize_m ?S) \<and>
      count_f (current_m ?S) = 0 \<and> length ?xs < 2 ^ 63"
    by (simp add: FixedCountStat_ctor_def Values_init_def)
  with c [where s = ?S and xs = ?xs and tr = "[]", THEN conjunct1]
  obtain s' where s': "FixedCountStat_adds ?xs (?S, []) = Some (s', [])"
    by blast
  from c [where s = ?S and xs = ?xs and tr = "[]" and s' = s',
          THEN conjunct2, THEN conjunct2, THEN conjunct1] s' S0
  have 1: "fst (count (s', [])) = 2 \<and> sint (fst (count (s', []))) = 2"
    by simp
  have I0: "(\<forall>y \<in> set ?ys.
       currentWindowId (fst (fst (fst y))) ?I = Some (windowId_m ?I) \<and>
       currentWindowId (fst (snd (fst y))) ?I = Some (windowId_m ?I)) \<and>
      count_f (current_m ?I) = 0 \<and> length ?ys < 2 ^ 63"
    using interval_example_windowId(1,2)
    by (simp add: currentWindowId_def interval_example_def Values_init_def)
  with c [where i = ?I and ys = ?ys and tr = "[]", THEN conjunct2, THEN conjunct1]
  obtain i' where i': "IntervalStat_adds ?ys (?I, []) = Some (i', [])"
    by blast
  from c [where i = ?I and ys = ?ys and tr = "[]" and i' = i',
          THEN conjunct2, THEN conjunct2, THEN conjunct2, THEN conjunct1] i' I0
  have 2: "fst (count (i', [])) = 1 \<and> sint (fst (count (i', []))) = 1"
    by simp
  from I0 have I1: "currentWindowId 61000000000 ?I = Some (windowId_m ?I) \<and>
      currentWindowId 62000000000 ?I = Some (windowId_m ?I) \<and>
      count_f (current_m ?I) = 0 \<and> length ?ys < 2 ^ 63"
    by simp
  from S0 s' 1 I1 i' 2 show ?thesis by blast
qed

text \<open>
  C9. The bitset that \<open>merge\<close> builds depends only on the set of the listed kinds: two
  lists with the same elements, whatever their order and repetitions, give the same
  bitset, and so does the list without its duplicates. \<open>test\<close> on the result is
  membership in the list. The constructors store this bitset, and \<open>add\<close> on either
  subclass, \<open>logLocked\<close>, \<open>count\<close> and \<open>get\<close> leave it as it is.
\<close>
theorem C9_aggregation_set_fixed_at_construction:
  "(set xs = set ys \<longrightarrow> merge xs = merge ys) \<and>
   merge (remdups xs) = merge xs \<and>
   (test (merge xs) k \<longleftrightarrow> k \<in> set xs) \<and>
   aggregations_m (fst (FixedCountStat_ctor name xs n tr)) = merge xs \<and>
   aggregations_m (fst (IntervalStat_ctor name xs w tr)) = merge xs \<and>
   (FixedCountStat_add clk v (s, tr) = Some (s', tr') \<longrightarrow>
      aggregations_m s' = aggregations_m s) \<and>
   (IntervalStat_add clk2 v (i, tr) = Some (i', tr') \<longrightarrow>
      aggregations_m i' = aggregations_m i) \<and>
   (logLocked now (b, tr) = Some (b', tr') \<longrightarrow> aggregations_m b' = aggregations_m b) \<and>
   snd (count st) = st \<and>
   (get st = Some (out, st') \<longrightarrow> st' = st)"
proof (intro conjI impI)
  show "merge xs = merge ys" if "set xs = set ys"
    using that by (rule merge_set_cong)
  show "merge (remdups xs) = merge xs"
    by (rule merge_set_cong) simp
  show "test (merge xs) k \<longleftrightarrow> k \<in> set xs"
    by (rule test_merge)
  show "aggregations_m (fst (FixedCountStat_ctor name xs n tr)) = merge xs"
    by (simp add: FixedCountStat_ctor_def)
  show "aggregations_m (fst (IntervalStat_ctor name xs w tr)) = merge xs"
    by (simp add: IntervalStat_ctor_def)
  show "aggregations_m s' = aggregations_m s"
    if "FixedCountStat_add clk v (s, tr) = Some (s', tr')"
    using that by (rule FixedCountStat_add_aggregations)
  show "aggregations_m i' = aggregations_m i"
    if "IntervalStat_add clk2 v (i, tr) = Some (i', tr')"
    using that by (rule IntervalStat_add_aggregations)
  show "aggregations_m b' = aggregations_m b"
    if "logLocked now (b, tr) = Some (b', tr')"
    using logLocked_shape [OF that] by simp
  show "snd (count st) = st"
    by (simp add: count_def)
  show "st' = st" if "get st = Some (out, st')"
    using that by (auto simp: get_def bind_eq_Some_conv)
qed

theorem C9_aggregation_set_fixed_at_construction_witness:
  "set [SUM_agg, MEAN_agg, SUM_agg] = set [MEAN_agg, SUM_agg] \<and>
   merge [SUM_agg, MEAN_agg, SUM_agg] = merge [MEAN_agg, SUM_agg] \<and>
   (\<exists>s' tr'. FixedCountStat_add (1, 2) 5 (fst (FixedCountStat_ctor ''x'' [SUM_agg] 3 []), []) =
        Some (s', tr') \<and>
      aggregations_m s' = aggregations_m (fst (FixedCountStat_ctor ''x'' [SUM_agg] 3 []))) \<and>
   (\<exists>i' tr'. IntervalStat_add ((61000000000, 1), (62000000000, 2)) 5 (interval_example, []) =
        Some (i', tr') \<and>
      aggregations_m i' = aggregations_m interval_example) \<and>
   (\<exists>b' tr'. logLocked 7 (interval_example, []) = Some (b', tr') \<and>
      aggregations_m b' = aggregations_m interval_example) \<and>
   (\<exists>out st'. get (interval_example, []) = Some (out, st') \<and> st' = (interval_example, []))"
proof -
  let ?S = "fst (FixedCountStat_ctor ''x'' [SUM_agg] 3 [])"
  note c = C9_aggregation_set_fixed_at_construction
  have 1: "set [SUM_agg, MEAN_agg, SUM_agg] = set [MEAN_agg, SUM_agg]"
    by auto
  with c [of "[SUM_agg, MEAN_agg, SUM_agg]" "[MEAN_agg, SUM_agg]", THEN conjunct1]
  have 2: "merge [SUM_agg, MEAN_agg, SUM_agg] = merge [MEAN_agg, SUM_agg]"
    by blast
  have "0 \<le> sint (count_f (current_m ?S))"
    "sint (count_f (current_m ?S)) + 1 < sint (windowSize_m ?S)"
    by (simp_all add: FixedCountStat_ctor_def Values_init_def)
  then have a: "FixedCountStat_add (1, 2) 5 (?S, []) =
      Some (?S\<lparr>current_m := accumulate (aggregations_m ?S) 5 (current_m ?S)\<rparr>, [])"
    by (rule FixedCountStat_add_open)
  have 3: "\<exists>s' tr'. FixedCountStat_add (1, 2) 5 (?S, []) = Some (s', tr') \<and>
      aggregations_m s' = aggregations_m ?S"
    using a c [where clk = "(1, 2)" and v = 5 and s = ?S and tr = "[]"] by blast
  have "currentWindowId 61000000000 interval_example = Some (windowId_m interval_example)"
    "currentWindowId 62000000000 interval_example = Some (windowId_m interval_example)"
    using interval_example_windowId(1,2) by (simp_all add: interval_example_def)
  then have b: "IntervalStat_add ((61000000000, 1), (62000000000, 2)) 5 (interval_example, []) =
      Some (interval_example\<lparr>current_m :=
              accumulate (aggregations_m interval_example) 5 (current_m interval_example)\<rparr>, [])"
    by (rule IntervalStat_add_same_bucket)
  have 4: "\<exists>i' tr'. IntervalStat_add ((61000000000, 1), (62000000000, 2)) 5 (interval_example, []) =
        Some (i', tr') \<and> aggregations_m i' = aggregations_m interval_example"
    using b c [where ?clk2.0 = "((61000000000, 1), (62000000000, 2))" and v = 5
                 and i = interval_example and tr = "[]"] by blast
  have "count_f (current_m interval_example) \<noteq> - 1"
    by (simp add: interval_example_def)
  from logLocked_events [OF this, of 7 "[]"] obtain b' tr' where
    l: "logLocked 7 (interval_example, []) = Some (b', tr')"
    by blast
  have 5: "\<exists>b' tr'. logLocked 7 (interval_example, []) = Some (b', tr') \<and>
      aggregations_m b' = aggregations_m interval_example"
    using l c [where now = 7 and b = interval_example and tr = "[]"] by blast
  have "prev_m interval_example = Values_init"
    by (simp add: interval_example_def)
  from getLocked_Values_init [OF this] obtain out where
    g: "get (interval_example, []) = Some (out, (interval_example, []))"
    by (simp add: get_def)
  have 6: "\<exists>out st'. get (interval_example, []) = Some (out, st') \<and> st' = (interval_example, [])"
    using g c [where st = "(interval_example, [])"] by blast
  from 1 2 3 4 5 6 show ?thesis by blast
qed

text \<open>
  C10. Closing an empty current window (all members 0) emits no event, and still
  overwrites the previous window: afterwards \<open>get()\<close> returns 0 for every selected kind
  (NONE has no entry), whatever the previous window held before. In every state that
  fewer than \<open>2^63\<close> calls of \<open>add\<close> reach from a constructor, a current window with
  count 0 is such an empty window.
\<close>
theorem C10_empty_close_overwrites_snapshot:
  "(current_m s = Values_init \<longrightarrow>
      logLocked now (s, tr) =
        Some (s\<lparr>prev_m := Values_init, current_m := Values_init\<rparr>, tr @ [LogLocked]) \<and>
      get (s\<lparr>prev_m := Values_init, current_m := Values_init\<rparr>, tr @ [LogLocked]) =
        Some (\<lambda>k. if test (aggregations_m s) k \<and> k \<noteq> NONE_agg then Some 0 else None,
              (s\<lparr>prev_m := Values_init, current_m := Values_init\<rparr>, tr @ [LogLocked]))) \<and>
   (FixedCountStat_adds xs (FixedCountStat_ctor name aggs n tr0) = Some (f, tr1) \<and>
    length xs < 2 ^ 63 \<and> count_f (current_m f) = 0 \<longrightarrow>
      current_m f = Values_init) \<and>
   (IntervalStat_adds ys (IntervalStat_ctor name aggs w tr0) = Some (i, tr2) \<and>
    length ys < 2 ^ 63 \<and> count_f (current_m i) = 0 \<longrightarrow>
      current_m i = Values_init)"
proof (intro conjI impI)
  assume e: "current_m s = Values_init"
  then have "count_f (current_m s) = 0"
    by (simp add: Values_init_def)
  from logLocked_empty [OF this, of now tr] e
  show "logLocked now (s, tr) =
      Some (s\<lparr>prev_m := Values_init, current_m := Values_init\<rparr>, tr @ [LogLocked])"
    by simp
  have "prev_m (s\<lparr>prev_m := Values_init, current_m := Values_init\<rparr>) = Values_init"
    by simp
  from getLocked_Values_init [OF this]
  show "get (s\<lparr>prev_m := Values_init, current_m := Values_init\<rparr>, tr @ [LogLocked]) =
      Some (\<lambda>k. if test (aggregations_m s) k \<and> k \<noteq> NONE_agg then Some 0 else None,
            (s\<lparr>prev_m := Values_init, current_m := Values_init\<rparr>, tr @ [LogLocked]))"
    by (simp add: get_def)
next
  show "current_m f = Values_init"
    if "FixedCountStat_adds xs (FixedCountStat_ctor name aggs n tr0) = Some (f, tr1) \<and>
        length xs < 2 ^ 63 \<and> count_f (current_m f) = 0"
    using that FixedCountStat_reachable_window [of xs name aggs n tr0 f tr1] by blast
  show "current_m i = Values_init"
    if "IntervalStat_adds ys (IntervalStat_ctor name aggs w tr0) = Some (i, tr2) \<and>
        length ys < 2 ^ 63 \<and> count_f (current_m i) = 0"
    using that IntervalStat_reachable_window [of ys name aggs w tr0 i tr2] by blast
qed

theorem C10_empty_close_overwrites_snapshot_witness:
  "current_m latency_closed = Values_init \<and>
   map_option fst (get (latency_closed, [])) =
     Some [SUM_agg \<mapsto> 60, COUNT_agg \<mapsto> 3, MEAN_agg \<mapsto> 20] \<and>
   logLocked 9 (latency_closed, []) =
     Some (latency_closed\<lparr>prev_m := Values_init, current_m := Values_init\<rparr>, [LogLocked]) \<and>
   map_option fst
     (get (latency_closed\<lparr>prev_m := Values_init, current_m := Values_init\<rparr>, [LogLocked])) =
     Some [SUM_agg \<mapsto> 0, COUNT_agg \<mapsto> 0, MEAN_agg \<mapsto> 0] \<and>
   (\<exists>tr. FixedCountStat_adds [((1, 2), 10), ((3, 4), 20), ((5, 6), 30)]
       (FixedCountStat_ctor ''latency'' [SUM_agg, COUNT_agg, MEAN_agg] 3 []) =
       Some (latency_closed, tr)) \<and>
   length [((1 :: int, 2 :: int), 10 :: int64_t), ((3, 4), 20), ((5, 6), 30)] < 2 ^ 63 \<and>
   count_f (current_m latency_closed) = 0 \<and>
   (\<exists>i tr. IntervalStat_adds [(((61000000000, 1), (200000000000, 2)), 5)]
       (IntervalStat_ctor ''x'' [SUM_agg] 60000 []) = Some (i, tr) \<and>
      count_f (current_m i) = 0 \<and> current_m i = Values_init) \<and>
   length [(((61000000000 :: int64_t, 1 :: int), (200000000000 :: int64_t, 2 :: int)),
            5 :: int64_t)] < 2 ^ 63"
proof -
  note c = C10_empty_close_overwrites_snapshot
  have r: "FixedCountStat_adds [((1, 2), 10), ((3, 4), 20), ((5, 6), 30)]
       (FixedCountStat_ctor ''latency'' [SUM_agg, COUNT_agg, MEAN_agg] 3 []) =
       Some (latency_closed, [RegisterStat, LogLocked,
          LogEvent \<lparr>type_f = ''torch.monitor.Stat'', message_f = ''latency'', timestamp_f = 6,
                    metadata_f = [''latency.sum'' \<mapsto> 60, ''latency.count'' \<mapsto> 3,
                                  ''latency.mean'' \<mapsto> 20]\<rparr>])"
    using latency_run [of 1 2 3 4 5 6] by (simp add: latency_closed_def)
  have z: "count_f (current_m latency_closed) = 0"
    by (simp add: latency_closed_def Values_init_def)
  have l: "length [((1 :: int, 2 :: int), 10 :: int64_t), ((3, 4), 20), ((5, 6), 30)] < 2 ^ 63"
    "length [(((61000000000 :: int64_t, 1 :: int), (200000000000 :: int64_t, 2 :: int)),
            5 :: int64_t)] < 2 ^ 63"
    by simp_all
  from c [THEN conjunct2, THEN conjunct1, THEN mp, OF conjI [OF r conjI [OF l(1) z]]]
  have h: "current_m latency_closed = Values_init" .
  have g: "map_option fst (get (latency_closed, [])) =
      Some [SUM_agg \<mapsto> 60, COUNT_agg \<mapsto> 3, MEAN_agg \<mapsto> 20]"
    using latency_getLocked [of latency_closed]
    by (simp add: get_def latency_closed_def)
  have m: "(\<lambda>k. if test (aggregations_m latency_closed) k \<and> k \<noteq> NONE_agg then Some 0 else None) =
      [SUM_agg \<mapsto> 0 :: int64_t, COUNT_agg \<mapsto> 0, MEAN_agg \<mapsto> 0]"
    by (auto simp: fun_eq_iff latency_closed_def test_merge)
  from c [where s = latency_closed and now = 9 and tr = "[]", THEN conjunct1] h m
  have 1: "logLocked 9 (latency_closed, []) =
     Some (latency_closed\<lparr>prev_m := Values_init, current_m := Values_init\<rparr>, [LogLocked]) \<and>
   map_option fst
     (get (latency_closed\<lparr>prev_m := Values_init, current_m := Values_init\<rparr>, [LogLocked])) =
     Some [SUM_agg \<mapsto> 0, COUNT_agg \<mapsto> 0, MEAN_agg \<mapsto> 0]"
    by simp
  from interval_race_run obtain i e where
    ir: "IntervalStat_adds [(((61000000000, 1), (200000000000, 2)), 5)]
       (IntervalStat_ctor ''x'' [SUM_agg] 60000 []) =
       Some (i, [RegisterStat, LogLocked, LogLocked, LogEvent e])"
    and iz: "current_m i = Values_init"
    by blast
  from iz have iz0: "count_f (current_m i) = 0"
    by (simp add: Values_init_def)
  from c [THEN conjunct2, THEN conjunct2, THEN mp, OF conjI [OF ir conjI [OF l(2) iz0]]]
  have "current_m i = Values_init" .
  with ir iz0 have 2: "\<exists>i tr. IntervalStat_adds [(((61000000000, 1), (200000000000, 2)), 5)]
       (IntervalStat_ctor ''x'' [SUM_agg] 60000 []) = Some (i, tr) \<and>
      count_f (current_m i) = 0 \<and> current_m i = Values_init"
    by blast
  from h g 1 r l z 2 show ?thesis by blast
qed

end
